theory Spec2Isabelle
  imports Main "HOL-Library.AList"
begin

section \<open>Python strings\<close>

text \<open>
  A Python \<open>str\<close> is modelled as a \<open>string\<close> whose characters stand for the code
  points 0..255. The character classes below are those of \<open>str.isspace\<close>,
  \<open>str.lower\<close> and of the \<open>re\<close> module on that range.
\<close>

definition isspace :: "char \<Rightarrow> bool" where
  "isspace c = (c \<in> set [CHR 0x09, CHR 0x0A, CHR 0x0B, CHR 0x0C, CHR 0x0D,
     CHR 0x1C, CHR 0x1D, CHR 0x1E, CHR 0x1F, CHR 0x20, CHR 0x85, CHR 0xA0])"

definition isdigit :: "char \<Rightarrow> bool" where
  "isdigit c = (c \<in> set ''0123456789'')"

definition lower_char :: "char \<Rightarrow> char" where
  "lower_char c =
     (let n = (of_char c :: nat)
      in if (65 \<le> n \<and> n \<le> 90) \<or> (192 \<le> n \<and> n \<le> 222 \<and> n \<noteq> 215)
         then char_of (n + 32) else c)"

definition lower :: "string \<Rightarrow> string" where
  "lower s = map lower_char s"

definition lstrip :: "string \<Rightarrow> string" where
  "lstrip s = dropWhile isspace s"

definition rstrip :: "string \<Rightarrow> string" where
  "rstrip s = rev (dropWhile isspace (rev s))"

definition strip :: "string \<Rightarrow> string" where
  "strip s = lstrip (rstrip s)"

text \<open>\<open>str(i)\<close> for an integer: its decimal digits, with a minus sign when negative.\<close>

definition digit_char :: "nat \<Rightarrow> char" where
  "digit_char d = char_of (48 + d)"

fun digits :: "nat \<Rightarrow> string" where
  "digits n = (if n < 10 then [digit_char n] else digits (n div 10) @ [digit_char (n mod 10)])"

declare digits.simps [simp del]

definition str_int :: "int \<Rightarrow> string" where
  "str_int i = (if i < 0 then CHR ''-'' # digits (nat (- i)) else digits (nat i))"

text \<open>
  \<open>int(s)\<close> on a string: surrounding whitespace is skipped (the ASCII whitespace and,
  of the other code points, 0x85 and 0xA0), then an optional sign, then decimal digits
  that may be separated by single underscores; at most 4300 digits are accepted.
  \<open>None\<close> stands for the \<open>ValueError\<close>.
\<close>

definition int_space :: "char \<Rightarrow> bool" where
  "int_space c = (c \<in> set [CHR 0x09, CHR 0x0A, CHR 0x0B, CHR 0x0C, CHR 0x0D, CHR 0x20,
     CHR 0x85, CHR 0xA0])"

fun digits_ok :: "string \<Rightarrow> bool" where
  "digits_ok [] = False"
| "digits_ok [c] = isdigit c"
| "digits_ok (c # d # r) =
     (isdigit c \<and> (if d = CHR ''_'' then digits_ok r else digits_ok (d # r)))"

definition digit_val :: "char \<Rightarrow> int" where
  "digit_val c = int (of_char c) - 48"

definition digits_value :: "string \<Rightarrow> int" where
  "digits_value s = foldl (\<lambda>a c. 10 * a + digit_val c) 0 (filter isdigit s)"

definition py_int :: "string \<Rightarrow> int option" where
  "py_int s =
     (let t = rev (dropWhile int_space (rev (dropWhile int_space s)));
          neg = (case t of c # r \<Rightarrow> c = CHR ''-'' | [] \<Rightarrow> False);
          body = (case t of c # r \<Rightarrow> if c = CHR ''-'' \<or> c = CHR ''+'' then r else t | [] \<Rightarrow> t)
      in if digits_ok body \<and> length (filter isdigit body) \<le> 4300
         then Some (if neg then - digits_value body else digits_value body)
         else None)"

section \<open>The configuration store\<close>

text \<open>
  The store is the \<open>configparser.ConfigParser\<close> object the source builds
  (\<open>interpolation=None\<close>, \<open>optionxform = str\<close>): the \<open>DEFAULT\<close> dictionary and the
  ordered dictionary of sections, each an ordered dictionary of options. Ordered
  dictionaries are association lists with distinct keys; assignment is
  \<open>AList.update\<close> (replace in place, or append).
\<close>

type_synonym pydict = "(string \<times> string) list"

record config =
  defaults :: pydict
  sections :: "(string \<times> pydict) list"

datatype py_error =
    ValueError
  | NoSectionError string
  | DuplicateSectionError string
  | DuplicateOptionError string string
  | MissingSectionHeaderError
  | ParsingError

definition default_section :: string where
  "default_section = ''DEFAULT''"

definition has_section :: "config \<Rightarrow> string \<Rightarrow> bool" where
  "has_section c s = (map_of (sections c) s \<noteq> None)"

text \<open>\<open>section in config\<close>.\<close>

definition config_contains :: "config \<Rightarrow> string \<Rightarrow> bool" where
  "config_contains c s = (s = default_section \<or> has_section c s)"

definition add_section :: "config \<Rightarrow> string \<Rightarrow> py_error + config" where
  "add_section c s =
     (if s = default_section then Inl ValueError
      else if has_section c s then Inl (DuplicateSectionError s)
      else Inr (c\<lparr>sections := sections c @ [(s, [])]\<rparr>))"

text \<open>
  \<open>config[section][option] = value\<close>, that is \<open>RawConfigParser.set\<close>: an empty section
  name and \<open>DEFAULT\<close> both address the \<open>DEFAULT\<close> dictionary.
\<close>

definition config_set :: "config \<Rightarrow> string \<Rightarrow> string \<Rightarrow> string \<Rightarrow> py_error + config" where
  "config_set c s k v =
     (if s = [] \<or> s = default_section
      then Inr (c\<lparr>defaults := AList.update k v (defaults c)\<rparr>)
      else case map_of (sections c) s of
             None \<Rightarrow> Inl (NoSectionError s)
           | Some d \<Rightarrow> Inr (c\<lparr>sections := AList.update s (AList.update k v d) (sections c)\<rparr>))"

text \<open>The dictionary a section name addresses in the store itself.\<close>

definition raw_section :: "config \<Rightarrow> string \<Rightarrow> pydict option" where
  "raw_section c s = (if s = default_section then Some (defaults c) else map_of (sections c) s)"

definition raw_get :: "config \<Rightarrow> string \<Rightarrow> string \<Rightarrow> string option" where
  "raw_get c s k = (case raw_section c s of None \<Rightarrow> None | Some d \<Rightarrow> map_of d k)"

text \<open>
  \<open>config[section].keys()\<close>: the section's own options followed by those of \<open>DEFAULT\<close>
  it does not override. Only called for a section that is in the store.
\<close>

definition options :: "config \<Rightarrow> string \<Rightarrow> string list" where
  "options c s =
     (let own = (case map_of (sections c) s of None \<Rightarrow> [] | Some d \<Rightarrow> map fst d)
      in own @ filter (\<lambda>k. k \<notin> set own) (map fst (defaults c)))"

definition section_keys :: "config \<Rightarrow> string \<Rightarrow> string list" where
  "section_keys c s = (if s = default_section then map fst (defaults c) else options c s)"

text \<open>
  \<open>config[section].get(option, fallback)\<close>: the section's own value, else the value in
  \<open>DEFAULT\<close>, else the fallback.
\<close>

definition section_get :: "config \<Rightarrow> string \<Rightarrow> string \<Rightarrow> string \<Rightarrow> string" where
  "section_get c s k fallback =
     (case (case map_of (sections c) s of None \<Rightarrow> None | Some d \<Rightarrow> map_of d k) of
        Some v \<Rightarrow> v
      | None \<Rightarrow> (case map_of (defaults c) k of Some v \<Rightarrow> v | None \<Rightarrow> fallback))"

section \<open>Uniform declarations and widgets\<close>

record uniform =
  u_type :: string
  u_name :: string
  u_meta :: pydict
  u_default :: string

text \<open>
  A float is kept as what \<open>repr\<close> prints of it: its sign, the digits of the shortest
  decimal that reads back as the same float (most significant first, \<open>[0]\<close> for zero)
  and the position of the decimal point, the value being \<open>0.d1d2... * 10 ^ decpt\<close>.
  No arithmetic is done on floats here.
\<close>

datatype pyfloat =
    Finite bool "nat list" int
  | Infinity bool
  | NaN

definition digit_string :: "nat list \<Rightarrow> string" where
  "digit_string ds = map digit_char ds"

text \<open>The exponent of the scientific notation: a sign and at least two digits.\<close>

definition exponent_string :: "int \<Rightarrow> string" where
  "exponent_string x =
     (if x < 0 then ''-'' else ''+'')
     @ (if \<bar>x\<bar> < 10 then ''0'' else []) @ digits (nat \<bar>x\<bar>)"

text \<open>
  \<open>str(x)\<close> for a float, which is \<open>repr(x)\<close>: scientific notation when the decimal
  point lies more than three places before the digits or more than sixteen places into
  them, positional notation with at least one fractional digit otherwise.
\<close>

definition str_float :: "pyfloat \<Rightarrow> string" where
  "str_float x =
     (case x of
        NaN \<Rightarrow> ''nan''
      | Infinity neg \<Rightarrow> (if neg then ''-inf'' else ''inf'')
      | Finite neg ds decpt \<Rightarrow>
          (if neg then ''-'' else [])
          @ (if decpt \<le> - 4 \<or> decpt > 16
             then digit_string (take 1 ds)
                  @ (if length ds \<le> 1 then [] else ''.'' @ digit_string (drop 1 ds))
                  @ ''e'' @ exponent_string (decpt - 1)
             else if decpt \<le> 0
             then ''0.'' @ replicate (nat (- decpt)) (CHR ''0'') @ digit_string ds
             else if int (length ds) \<le> decpt
             then digit_string ds @ replicate (nat decpt - length ds) (CHR ''0'') @ ''.0''
             else digit_string (take (nat decpt) ds) @ ''.'' @ digit_string (drop (nat decpt) ds)))"

text \<open>
  The strings \<open>float(s)\<close> accepts: surrounding whitespace as for \<open>int\<close>, an optional
  sign, then \<open>inf\<close>, \<open>infinity\<close> or \<open>nan\<close> in any case, or a decimal number with
  optional fraction and exponent, single underscores allowed between digits.
\<close>

definition mantissa_ok :: "string \<Rightarrow> bool" where
  "mantissa_ok m =
     (if CHR ''.'' \<in> set m
      then (let ip = takeWhile (\<lambda>c. c \<noteq> CHR ''.'') m;
                fp = drop (Suc (length ip)) m
            in (ip = [] \<or> digits_ok ip) \<and> (fp = [] \<or> digits_ok fp) \<and> \<not> (ip = [] \<and> fp = []))
      else digits_ok m)"

definition exponent_ok :: "string \<Rightarrow> bool" where
  "exponent_ok x =
     (case x of
        [] \<Rightarrow> False
      | c # r \<Rightarrow> digits_ok (if c = CHR ''-'' \<or> c = CHR ''+'' then r else x))"

definition number_ok :: "string \<Rightarrow> bool" where
  "number_ok b =
     (let m = takeWhile (\<lambda>c. c \<noteq> CHR ''e'' \<and> c \<noteq> CHR ''E'') b
      in if length m < length b
         then mantissa_ok m \<and> exponent_ok (drop (Suc (length m)) b)
         else mantissa_ok b)"

definition is_float_literal :: "string \<Rightarrow> bool" where
  "is_float_literal s =
     (let t = rev (dropWhile int_space (rev (dropWhile int_space s)));
          b = (case t of c # r \<Rightarrow> if c = CHR ''-'' \<or> c = CHR ''+'' then r else t | [] \<Rightarrow> t)
      in lower b \<in> set [''inf'', ''infinity'', ''nan''] \<or> number_ok b)"

text \<open>
  A widget with what it holds: a combo box its number of items and current index, a spin
  box its integer, a double spin box its minimum, maximum and value, a check box its
  state, a line edit its text.
\<close>

datatype widget =
    QComboBox nat int
  | QSpinBox int
  | QDoubleSpinBox pyfloat pyfloat pyfloat
  | QCheckBox bool
  | QLineEdit string

text \<open>
  The floating-point arithmetic, which is not modelled: the float that \<open>float(s)\<close>
  denotes for a string it accepts, and the value a double spin box with the given
  minimum and maximum takes when \<open>setValue\<close> is called with a float (Qt rounds it to the
  box's decimals and bounds it).
\<close>

record externals =
  float_val :: "string \<Rightarrow> pyfloat"
  bound_round :: "pyfloat \<Rightarrow> pyfloat \<Rightarrow> pyfloat \<Rightarrow> pyfloat"

subsection \<open>\<open>update_ini_from_widgets\<close>\<close>

definition widget_value :: "widget \<Rightarrow> string" where
  "widget_value w =
     (case w of
        QComboBox n i \<Rightarrow> str_int i
      | QSpinBox n \<Rightarrow> str_int n
      | QDoubleSpinBox lo hi x \<Rightarrow> str_float x
      | QCheckBox b \<Rightarrow> (if b then ''1'' else ''0'')
      | QLineEdit t \<Rightarrow> t)"

fun update_loop ::
  "string \<Rightarrow> (string \<rightharpoonup> widget) \<Rightarrow> uniform list \<Rightarrow> config \<Rightarrow> py_error + config" where
  "update_loop s widgets [] c = Inr c"
| "update_loop s widgets (u # us) c =
     (case widgets (u_name u) of
        None \<Rightarrow> update_loop s widgets us c
      | Some w \<Rightarrow>
          (case config_set c s (u_name u) (widget_value w) of
             Inl e \<Rightarrow> Inl e
           | Inr c' \<Rightarrow> update_loop s widgets us c'))"

definition update_ini_from_widgets ::
  "config \<Rightarrow> string \<Rightarrow> uniform list \<Rightarrow> (string \<rightharpoonup> widget) \<Rightarrow> py_error + config" where
  "update_ini_from_widgets c s uniforms widgets =
     (case (if \<not> config_contains c s then add_section c s else Inr c) of
        Inl e \<Rightarrow> Inl e
      | Inr c' \<Rightarrow> update_loop s widgets uniforms c')"

subsection \<open>\<open>set_widgets_from_ini\<close>\<close>

definition truth_set :: "string list" where
  "truth_set = [''1'', ''true'', ''yes'']"

text \<open>\<open>float(value)\<close>; \<open>None\<close> stands for the \<open>ValueError\<close>.\<close>

definition py_float :: "externals \<Rightarrow> string \<Rightarrow> pyfloat option" where
  "py_float ext v = (if is_float_literal v then Some (float_val ext v) else None)"

text \<open>
  The setters of PyQt6; \<open>None\<close> when the call raises. \<open>setCurrentIndex\<close> takes a C
  \<open>int\<close> (\<open>OverflowError\<close> outside its range) and an index that is not an item leaves no
  current item, index \<open>-1\<close>. \<open>setValue\<close> of an integer spin box does not accept a float
  (\<open>TypeError\<close>). \<open>setText\<close> truncates to the maximum length, 32767.
\<close>

definition setCurrentIndex :: "widget \<Rightarrow> int \<Rightarrow> widget option" where
  "setCurrentIndex w k =
     (case w of
        QComboBox n i \<Rightarrow>
          if k < - 2147483648 \<or> 2147483647 < k then None
          else Some (QComboBox n (if 0 \<le> k \<and> k < int n then k else - 1))
      | _ \<Rightarrow> None)"

definition setValue :: "externals \<Rightarrow> widget \<Rightarrow> pyfloat \<Rightarrow> widget option" where
  "setValue ext w x =
     (case w of
        QDoubleSpinBox lo hi y \<Rightarrow> Some (QDoubleSpinBox lo hi (bound_round ext lo hi x))
      | _ \<Rightarrow> None)"

definition setChecked :: "widget \<Rightarrow> bool \<Rightarrow> widget option" where
  "setChecked w b = (case w of QCheckBox a \<Rightarrow> Some (QCheckBox b) | _ \<Rightarrow> None)"

definition setText :: "widget \<Rightarrow> string \<Rightarrow> widget option" where
  "setText w t = (case w of QLineEdit a \<Rightarrow> Some (QLineEdit (take 32767 t)) | _ \<Rightarrow> None)"

text \<open>
  The body of the \<open>try\<close> for one widget; \<open>None\<close> when it raises, which the
  \<open>except Exception: pass\<close> swallows.
\<close>

definition try_set :: "externals \<Rightarrow> widget \<Rightarrow> string \<Rightarrow> widget option" where
  "try_set ext w v =
     (case w of
        QComboBox n i \<Rightarrow>
          (case py_int v of None \<Rightarrow> None | Some k \<Rightarrow> setCurrentIndex w k)
      | QSpinBox n \<Rightarrow>
          (case py_float ext v of None \<Rightarrow> None | Some x \<Rightarrow> setValue ext w x)
      | QDoubleSpinBox lo hi y \<Rightarrow>
          (case py_float ext v of None \<Rightarrow> None | Some x \<Rightarrow> setValue ext w x)
      | QCheckBox b \<Rightarrow> setChecked w (lower v \<in> set truth_set)
      | QLineEdit t \<Rightarrow> setText w v)"

definition set_widget ::
  "externals \<Rightarrow> config \<Rightarrow> string \<Rightarrow> uniform \<Rightarrow> (string \<rightharpoonup> widget) \<Rightarrow> (string \<rightharpoonup> widget)" where
  "set_widget ext c s u widgets =
     (case widgets (u_name u) of
        None \<Rightarrow> widgets
      | Some w \<Rightarrow>
          (case try_set ext w (section_get c s (u_name u) (u_default u)) of
             None \<Rightarrow> widgets
           | Some w' \<Rightarrow> widgets(u_name u \<mapsto> w')))"

definition set_widgets_from_ini ::
  "externals \<Rightarrow> config \<Rightarrow> string \<Rightarrow> uniform list \<Rightarrow> (string \<rightharpoonup> widget)
     \<Rightarrow> (string \<rightharpoonup> widget)" where
  "set_widgets_from_ini ext c s uniforms widgets =
     (if \<not> config_contains c s then widgets
      else foldl (\<lambda>ws u. set_widget ext c s u ws) widgets uniforms)"

subsection \<open>The layout check of \<open>load_ini\<close>\<close>




section \<open>Regular expressions\<close>

text \<open>
  The patterns of the source are kept as data, item by item, and matched by a
  backtracking matcher with the priorities of Python's \<open>re\<close>: a greedy repetition tries
  the longest run first, a lazy one the shortest, and the first complete match wins.
  Every repetition in the source's patterns is over a single character class, so an item
  is a literal, one character of a class, a repeated class (inside a capturing group or
  not), an optional character, an optional group, or an anchor.
\<close>

definition isword :: "char \<Rightarrow> bool" where
  "isword c =
     (let n = (of_char c :: nat)
      in (48 \<le> n \<and> n \<le> 57) \<or> (65 \<le> n \<and> n \<le> 90) \<or> n = 95 \<or> (97 \<le> n \<and> n \<le> 122)
         \<or> n = 170 \<or> n = 178 \<or> n = 179 \<or> n = 181 \<or> n = 185 \<or> n = 186
         \<or> (188 \<le> n \<and> n \<le> 190) \<or> (192 \<le> n \<and> n \<le> 214) \<or> (216 \<le> n \<and> n \<le> 246)
         \<or> 248 \<le> n)"

text \<open>\<open>.\<close> without \<open>DOTALL\<close>: any character but the newline.\<close>

definition isdot :: "char \<Rightarrow> bool" where
  "isdot c = (c \<noteq> CHR 0x0A)"

datatype rx =
    Lit string
  | One "char \<Rightarrow> bool"
  | Many "char \<Rightarrow> bool" nat bool
  | Group "char \<Rightarrow> bool" nat bool
  | Maybe "char \<Rightarrow> bool"
  | Option "rx list"
  | Bol
  | MBol
  | Eol

text \<open>
  \<open>Many c n g\<close> is the class \<open>c\<close> repeated at least \<open>n\<close> times, greedy when \<open>g\<close> holds
  and lazy otherwise; \<open>Group c n g\<close> is the same repetition inside \<open>( )\<close>, its text
  captured. \<open>Maybe c\<close> is \<open>c?\<close>, \<open>Option r\<close> is \<open>(r)?\<close> whose capture the source never
  reads. \<open>Bol\<close> and \<open>Eol\<close> are \<open>^\<close> and \<open>$\<close>, \<open>MBol\<close> is \<open>^\<close> under \<open>re.MULTILINE\<close>.

  A cursor is a position in the text: the character before it (none at the start) and
  the text from it on.
\<close>

type_synonym cursor = "char option \<times> string"

definition advance :: "nat \<Rightarrow> cursor \<Rightarrow> cursor" where
  "advance k cur =
     (if k = 0 then cur else (Some (snd cur ! (k - 1)), drop k (snd cur)))"

fun first_some :: "('a \<Rightarrow> 'b option) \<Rightarrow> 'a list \<Rightarrow> 'b option" where
  "first_some f [] = None"
| "first_some f (x # xs) = (case f x of Some y \<Rightarrow> Some y | None \<Rightarrow> first_some f xs)"

text \<open>The run lengths a repetition tries, in the order it tries them.\<close>

definition counts :: "(char \<Rightarrow> bool) \<Rightarrow> nat \<Rightarrow> bool \<Rightarrow> string \<Rightarrow> nat list" where
  "counts c n g s =
     (let m = length (takeWhile c s)
      in if g then rev [n..<Suc m] else [n..<Suc m])"

function rx_match :: "rx list \<Rightarrow> cursor \<Rightarrow> (string list \<times> cursor) option" where
  "rx_match [] cur = Some ([], cur)"
| "rx_match (Lit l # r) cur =
     (if take (length l) (snd cur) = l then rx_match r (advance (length l) cur) else None)"
| "rx_match (One c # r) cur =
     (case snd cur of
        [] \<Rightarrow> None
      | x # t \<Rightarrow> if c x then rx_match r (Some x, t) else None)"
| "rx_match (Many c n g # r) cur =
     first_some (\<lambda>k. rx_match r (advance k cur)) (counts c n g (snd cur))"
| "rx_match (Group c n g # r) cur =
     first_some
       (\<lambda>k. case rx_match r (advance k cur) of
               None \<Rightarrow> None
             | Some (gs, cur') \<Rightarrow> Some (take k (snd cur) # gs, cur'))
       (counts c n g (snd cur))"
| "rx_match (Maybe c # r) cur =
     (case (case snd cur of x # t \<Rightarrow> if c x then rx_match r (Some x, t) else None | [] \<Rightarrow> None) of
        Some m \<Rightarrow> Some m
      | None \<Rightarrow> rx_match r cur)"
| "rx_match (Option b # r) cur =
     (case rx_match (b @ r) cur of Some m \<Rightarrow> Some m | None \<Rightarrow> rx_match r cur)"
| "rx_match (Bol # r) cur = (if fst cur = None then rx_match r cur else None)"
| "rx_match (MBol # r) cur =
     (if fst cur = None \<or> fst cur = Some (CHR 0x0A) then rx_match r cur else None)"
| "rx_match (Eol # r) cur =
     (if snd cur = [] \<or> snd cur = [CHR 0x0A] then rx_match r cur else None)"
  by pat_completeness auto
termination
  by (relation "measure (\<lambda>(p, cur). size_list size p)") auto

text \<open>\<open>re.match(pattern, s)\<close>: the groups of the match at the start of \<open>s\<close>.\<close>

definition re_match :: "rx list \<Rightarrow> string \<Rightarrow> string list option" where
  "re_match p s = map_option fst (rx_match p (None, s))"

text \<open>
  \<open>pattern.finditer(s)\<close>: the matches from left to right, each with the offset where it
  starts and its groups; the scan resumes where a match ended. A match that consumed
  nothing moves the scan one character on; the patterns of the source that are scanned
  this way all consume at least one character.
\<close>

function finditer_from :: "rx list \<Rightarrow> nat \<Rightarrow> cursor \<Rightarrow> (nat \<times> string list) list" where
  "finditer_from p i cur =
     (case rx_match p cur of
        Some (gs, cur') \<Rightarrow>
          (if length (snd cur') < length (snd cur)
           then (i, gs) # finditer_from p (i + (length (snd cur) - length (snd cur'))) cur'
           else (i, gs) # (case snd cur of [] \<Rightarrow> [] | x # t \<Rightarrow> finditer_from p (Suc i) (Some x, t)))
      | None \<Rightarrow> (case snd cur of [] \<Rightarrow> [] | x # t \<Rightarrow> finditer_from p (Suc i) (Some x, t)))"
  by pat_completeness auto
termination
  by (relation "measure (\<lambda>(p, i, cur). length (snd cur))") auto

declare finditer_from.simps [simp del]

definition finditer :: "rx list \<Rightarrow> string \<Rightarrow> (nat \<times> string list) list" where
  "finditer p s = finditer_from p 0 (None, s)"

text \<open>\<open>re.findall\<close> for a pattern with groups: the groups of every match.\<close>

definition findall :: "rx list \<Rightarrow> string \<Rightarrow> string list list" where
  "findall p s = map snd (finditer p s)"

section \<open>The schema extractor\<close>

text \<open>\<open>#define\s+(\w+)\s+([\d\.]+)\<close>\<close>

definition define_pattern :: "rx list" where
  "define_pattern =
     [Lit ''#define'', Many isspace 1 True, Group isword 1 True, Many isspace 1 True,
      Group (\<lambda>c. isdigit c \<or> c = CHR ''.'') 1 True]"

text \<open>\<open>uniform\s+(\w+)\s+(\w+)\s*<([^>]*)>\s*=\s*([^;]+);\<close>\<close>

definition uniform_pattern :: "rx list" where
  "uniform_pattern =
     [Lit ''uniform'', Many isspace 1 True, Group isword 1 True, Many isspace 1 True,
      Group isword 1 True, Many isspace 0 True, Lit ''<'', Group (\<lambda>c. c \<noteq> CHR ''>'') 0 True,
      Lit ''>'', Many isspace 0 True, Lit ''='', Many isspace 0 True,
      Group (\<lambda>c. c \<noteq> CHR '';'') 1 True, Lit '';'']"

text \<open>\<open>(\w+)\s*=\s*"?([^;\n"]+)"?;?\<close>\<close>

definition meta_pattern :: "rx list" where
  "meta_pattern =
     [Group isword 1 True, Many isspace 0 True, Lit ''='', Many isspace 0 True,
      Maybe (\<lambda>c. c = CHR 0x22),
      Group (\<lambda>c. c \<noteq> CHR '';'' \<and> c \<noteq> CHR 0x0A \<and> c \<noteq> CHR 0x22) 1 True,
      Maybe (\<lambda>c. c = CHR 0x22), Maybe (\<lambda>c. c = CHR '';'')]"

text \<open>\<open>^-?\d+(\.\d+)?$\<close>\<close>

definition number_pattern :: "rx list" where
  "number_pattern =
     [Bol, Maybe (\<lambda>c. c = CHR ''-''), Many isdigit 1 True,
      Option [Lit ''.'', Many isdigit 1 True], Eol]"

text \<open>\<open>dict(pairs)\<close>: a later pair replaces the value of an earlier one with the same key.\<close>

definition dict_of :: "(string \<times> string) list \<Rightarrow> pydict" where
  "dict_of ps = foldl (\<lambda>d kv. AList.update (fst kv) (snd kv) d) [] ps"

definition pair_of :: "string list \<Rightarrow> string \<times> string" where
  "pair_of gs = (case gs of [k, v] \<Rightarrow> (k, v) | _ \<Rightarrow> ([], []))"

text \<open>The \<open>#define\<close> table.\<close>

definition parse_defines :: "string \<Rightarrow> pydict" where
  "parse_defines text = dict_of (map pair_of (findall define_pattern text))"

text \<open>The body of \<open>for k in ('ui_min', 'ui_max')\<close> for one \<open>k\<close>.\<close>

definition resolve :: "pydict \<Rightarrow> string \<Rightarrow> pydict \<Rightarrow> pydict" where
  "resolve defs k meta_dict =
     (case map_of meta_dict k of
        None \<Rightarrow> meta_dict
      | Some v \<Rightarrow>
          if v \<noteq> [] \<and> re_match number_pattern v = None
          then (case map_of defs v of
                  Some d \<Rightarrow> AList.update k d meta_dict
                | None \<Rightarrow> AList.update k (if k = ''ui_min'' then ''0'' else ''100'') meta_dict)
          else meta_dict)"

definition make_uniform :: "pydict \<Rightarrow> string list \<Rightarrow> uniform list" where
  "make_uniform defs gs =
     (case gs of
        [utype, name, meta, dflt] \<Rightarrow>
          [\<lparr>u_type = utype, u_name = name,
            u_meta = resolve defs ''ui_max''
                       (resolve defs ''ui_min'' (dict_of (map pair_of (findall meta_pattern meta)))),
            u_default = strip dflt\<rparr>]
      | _ \<Rightarrow> [])"

text \<open>\<open>parse_fx_uniforms\<close>, on the text read from the file.\<close>

definition parse_fx_uniforms :: "string \<Rightarrow> uniform list" where
  "parse_fx_uniforms text =
     concat (map (make_uniform (parse_defines text)) (findall uniform_pattern text))"

section \<open>Reading a configuration text\<close>

subsection \<open>Lines\<close>

text \<open>
  \<open>str.splitlines()\<close>: the lines without their terminators; \<open>\r\n\<close> is one terminator,
  and a terminator at the very end opens no further line.
\<close>

definition linebreak :: "char \<Rightarrow> bool" where
  "linebreak c = (c \<in> set [CHR 0x0A, CHR 0x0B, CHR 0x0C, CHR 0x0D, CHR 0x1C, CHR 0x1D,
     CHR 0x1E, CHR 0x85])"

definition after_break :: "char \<Rightarrow> string \<Rightarrow> string" where
  "after_break c s =
     (if c = CHR 0x0D then (case s of d # s' \<Rightarrow> if d = CHR 0x0A then s' else s | [] \<Rightarrow> s)
      else s)"

function splitlines :: "string \<Rightarrow> string list" where
  "splitlines [] = []"
| "splitlines (c # s) =
     (if linebreak c then [] # splitlines (after_break c s)
      else (case splitlines s of [] \<Rightarrow> [[c]] | l # ls \<Rightarrow> (c # l) # ls))"
  by pat_completeness auto
termination
  by (relation "measure length") (auto simp: after_break_def split: list.splits)

text \<open>
  Iterating over \<open>io.StringIO(content)\<close>, as \<open>read_string\<close> does: the lines end at
  \<open>\n\<close> only, and keep it.
\<close>

fun readlines :: "string \<Rightarrow> string list" where
  "readlines [] = []"
| "readlines (c # s) =
     (if c = CHR 0x0A then [c] # readlines s
      else (case readlines s of [] \<Rightarrow> [[c]] | l # ls \<Rightarrow> (c # l) # ls))"

subsection \<open>The structured parser: \<open>RawConfigParser._read\<close>\<close>

text \<open>
  The parser as the source configures it: delimiters \<open>=\<close> and \<open>:\<close>, comment prefixes
  \<open>#\<close> and \<open>;\<close>, no inline comments, \<open>strict\<close>, empty lines allowed in values, no
  valueless options, default section \<open>DEFAULT\<close>, \<open>optionxform = str\<close>, no interpolation.

  \<open>SECTCRE\<close> is \<open>\[(?P<header>.+)\]\<close>, and \<open>OPTCRE\<close> is
  \<open>(?P<option>.*?)\s*(?P<vi>=|:)\s*(?P<value>.*)$\<close>; the group \<open>vi\<close> is never read
  and is not captured here.
\<close>

definition SECTCRE :: "rx list" where
  "SECTCRE = [Lit ''['', Group isdot 1 True, Lit '']'']"

definition OPTCRE :: "rx list" where
  "OPTCRE =
     [Group isdot 0 False, Many isspace 0 True, One (\<lambda>c. c = CHR ''='' \<or> c = CHR '':''),
      Many isspace 0 True, Group isdot 0 True, Eol]"

text \<open>
  The state of the loop. While reading, a value is the list of its lines. \<open>cursect\<close> is
  the dictionary that \<open>sectname\<close> addresses (the defaults for \<open>DEFAULT\<close>), so it needs no
  field of its own; \<open>e\<close> records that a \<open>ParsingError\<close> is pending.
\<close>

record reader =
  r_sections :: "(string \<times> (string \<times> string list) list) list"
  r_defaults :: "(string \<times> string list) list"
  elements_added :: "(string + string \<times> string) list"
  sectname :: "string option"
  optname :: "string option"
  indent_level :: nat
  e :: bool

definition new_reader :: reader where
  "new_reader = \<lparr>r_sections = [], r_defaults = [], elements_added = [], sectname = None,
     optname = None, indent_level = 0, e = False\<rparr>"

definition cursect :: "reader \<Rightarrow> (string \<times> string list) list" where
  "cursect st =
     (case sectname st of
        None \<Rightarrow> []
      | Some s \<Rightarrow> (case map_of (r_sections st) s of Some d \<Rightarrow> d | None \<Rightarrow> r_defaults st))"

definition set_cursect :: "reader \<Rightarrow> (string \<times> string list) list \<Rightarrow> reader" where
  "set_cursect st d =
     (case sectname st of
        None \<Rightarrow> st
      | Some s \<Rightarrow>
          (case map_of (r_sections st) s of
             Some d0 \<Rightarrow> st\<lparr>r_sections := AList.update s d (r_sections st)\<rparr>
           | None \<Rightarrow> st\<lparr>r_defaults := d\<rparr>))"

text \<open>\<open>optname\<close> as a condition: neither \<open>None\<close> nor the empty string.\<close>

definition opt_set :: "reader \<Rightarrow> bool" where
  "opt_set st = (case optname st of None \<Rightarrow> False | Some k \<Rightarrow> k \<noteq> [])"

text \<open>\<open>cursect[optname].append(value)\<close>\<close>

definition append_value :: "reader \<Rightarrow> string \<Rightarrow> reader" where
  "append_value st v =
     (case optname st of
        None \<Rightarrow> st
      | Some k \<Rightarrow>
          (case map_of (cursect st) k of
             None \<Rightarrow> st
           | Some vs \<Rightarrow> set_cursect st (AList.update k (vs @ [v]) (cursect st))))"

definition is_comment :: "string \<Rightarrow> bool" where
  "is_comment line =
     (case strip line of [] \<Rightarrow> False | c # r \<Rightarrow> c = CHR ''#'' \<or> c = CHR '';'')"

text \<open>A section header line with the name \<open>h\<close>.\<close>

definition read_header :: "reader \<Rightarrow> string \<Rightarrow> py_error + reader" where
  "read_header st h =
     (if map_of (r_sections st) h \<noteq> None
      then (if Inl h \<in> set (elements_added st) then Inl (DuplicateSectionError h)
            else Inr (st\<lparr>sectname := Some h, elements_added := Inl h # elements_added st,
                        optname := None\<rparr>))
      else if h = default_section
      then Inr (st\<lparr>sectname := Some h, optname := None\<rparr>)
      else Inr (st\<lparr>r_sections := r_sections st @ [(h, [])], sectname := Some h,
                  elements_added := Inl h # elements_added st, optname := None\<rparr>))"

text \<open>An option line whose pattern gave the name \<open>k0\<close> and the value \<open>v0\<close>.\<close>

definition read_option :: "reader \<Rightarrow> string \<Rightarrow> string \<Rightarrow> string \<Rightarrow> py_error + reader" where
  "read_option st s k0 v0 =
     (let st1 = (if k0 = [] then st\<lparr>e := True\<rparr> else st);
          k = rstrip k0
      in if Inr (s, k) \<in> set (elements_added st1) then Inl (DuplicateOptionError s k)
         else Inr ((set_cursect st1 (AList.update k [strip v0] (cursect st1)))
                     \<lparr>elements_added := Inr (s, k) # elements_added st1, optname := Some k\<rparr>))"

text \<open>An empty line or a comment line: the branch \<open>if not value\<close>.\<close>

definition read_blank :: "reader \<Rightarrow> bool \<Rightarrow> reader" where
  "read_blank st comment =
     (if \<not> comment \<and> sectname st \<noteq> None \<and> opt_set st then append_value st [] else st)"

text \<open>
  A line that is not a section header, in section \<open>s\<close>, given what \<open>OPTCRE\<close> matched:
  an option, or else a line recorded for the \<open>ParsingError\<close>.
\<close>

fun read_pair :: "reader \<Rightarrow> string \<Rightarrow> string list option \<Rightarrow> py_error + reader" where
  "read_pair st s (Some [k0, v0]) = read_option st s k0 v0"
| "read_pair st s m = Inr (st\<lparr>e := True\<rparr>)"

text \<open>A line that is neither empty nor a continuation: a section header or an option.\<close>

definition read_entry :: "reader \<Rightarrow> string \<Rightarrow> py_error + reader" where
  "read_entry st val =
     (case re_match SECTCRE val of
        Some gs \<Rightarrow> read_header st (concat gs)
      | None \<Rightarrow>
          (case sectname st of
             None \<Rightarrow> Inl MissingSectionHeaderError
           | Some s \<Rightarrow> read_pair st s (re_match OPTCRE val)))"

definition read_line :: "reader \<Rightarrow> string \<Rightarrow> py_error + reader" where
  "read_line st line =
     (let val = (if is_comment line then [] else strip line)
      in if val = [] then Inr (read_blank st (is_comment line))
         else
           (let cur_indent_level = length (takeWhile isspace line)
            in if sectname st \<noteq> None \<and> opt_set st \<and> cur_indent_level > indent_level st
               then Inr (append_value st val)
               else read_entry (st\<lparr>indent_level := cur_indent_level\<rparr>) val))"

fun read_lines :: "reader \<Rightarrow> string list \<Rightarrow> py_error + reader" where
  "read_lines st [] = Inr st"
| "read_lines st (line # ls) =
     (case read_line st line of Inl err \<Rightarrow> Inl err | Inr st' \<Rightarrow> read_lines st' ls)"

text \<open>\<open>'\n'.join(val).rstrip()\<close>, for every value read.\<close>

fun join_lines :: "string list \<Rightarrow> string" where
  "join_lines [] = []"
| "join_lines [x] = x"
| "join_lines (x # y # r) = x @ [CHR 0x0A] @ join_lines (y # r)"

definition join_multiline_values :: "(string \<times> string list) list \<Rightarrow> pydict" where
  "join_multiline_values d = map (\<lambda>kv. (fst kv, rstrip (join_lines (snd kv)))) d"

text \<open>
  \<open>config.read_string(content)\<close> on the fresh parser of \<open>parse_ini\<close>: the store, or the
  exception raised. A pending \<open>ParsingError\<close> is raised after the last line.
\<close>

definition read_string :: "string \<Rightarrow> py_error + config" where
  "read_string content =
     (case read_lines new_reader (readlines content) of
        Inl err \<Rightarrow> Inl err
      | Inr st \<Rightarrow>
          if e st then Inl ParsingError
          else Inr \<lparr>defaults = join_multiline_values (r_defaults st),
                    sections = map (\<lambda>sd. (fst sd, join_multiline_values (snd sd))) (r_sections st)\<rparr>)"

subsection \<open>\<open>parse_ini\<close>\<close>

text \<open>\<open>^\[(.+?)\]\<close>, \<open>\s*\[.*?\]\<close> and, under \<open>re.MULTILINE\<close>, \<open>^(\w+)\s*=\<close>\<close>

definition header_pattern :: "rx list" where
  "header_pattern = [Bol, Lit ''['', Group isdot 1 False, Lit '']'']"

definition starts_with_header :: "rx list" where
  "starts_with_header = [Many isspace 0 True, Lit ''['', Many isdot 0 False, Lit '']'']"

definition global_key_pattern :: "rx list" where
  "global_key_pattern = [MBol, Group isword 1 True, Many isspace 0 True, Lit ''='']"

text \<open>The first pass over the lines, which records the original spelling of names.\<close>

record casing =
  current_section :: "string option"
  section_name_map :: pydict
  key_name_map :: "(string \<times> pydict) list"

definition scan_line :: "casing \<Rightarrow> string \<Rightarrow> casing" where
  "scan_line st line =
     (case re_match header_pattern line of
        Some gs \<Rightarrow>
          (let cs = concat gs
           in \<lparr>current_section = Some cs,
               section_name_map = AList.update (lower cs) cs (section_name_map st),
               key_name_map = AList.update (lower cs) [] (key_name_map st)\<rparr>)
      | None \<Rightarrow>
          (case current_section st of
             None \<Rightarrow> st
           | Some cs \<Rightarrow>
               if CHR ''='' \<in> set line \<and> cs \<noteq> []
               then (let key = strip (takeWhile (\<lambda>c. c \<noteq> CHR ''='') line);
                         d = (case map_of (key_name_map st) (lower cs) of None \<Rightarrow> [] | Some d \<Rightarrow> d)
                     in st\<lparr>key_name_map :=
                            AList.update (lower cs) (AList.update (lower key) key d) (key_name_map st)\<rparr>)
               else st))"

definition scan_lines :: "string \<Rightarrow> casing" where
  "scan_lines content =
     foldl scan_line \<lparr>current_section = None, section_name_map = [], key_name_map = []\<rparr>
       (splitlines content)"

text \<open>Whether \<open>parse_ini\<close> puts \<open>[GLOBAL]\<close> in front: \<open>not re.match(r'\s*\[.*?\]', content)\<close>.\<close>

definition needs_global :: "string \<Rightarrow> bool" where
  "needs_global content = (re_match starts_with_header content = None)"

definition global_header :: string where
  "global_header = ''[GLOBAL]'' @ [CHR 0x0A]"

text \<open>The text handed to the structured parser, and the two casing maps returned.\<close>

definition parsed_content :: "string \<Rightarrow> string" where
  "parsed_content content = (if needs_global content then global_header @ content else content)"

definition global_keys :: "string \<Rightarrow> pydict" where
  "global_keys content =
     dict_of (map (\<lambda>gs. (concat gs, concat gs)) (findall global_key_pattern (global_header @ content)))"

definition name_maps :: "string \<Rightarrow> pydict \<times> (string \<times> pydict) list" where
  "name_maps content =
     (let st = scan_lines content
      in if needs_global content
         then (AList.update ''global'' ''GLOBAL'' (section_name_map st),
               AList.update ''global'' (global_keys content) (key_name_map st))
         else (section_name_map st, key_name_map st))"

text \<open>
  \<open>parse_ini\<close> on the content of a file that exists. \<open>Inr\<close> carries the four values
  returned: the store or \<open>None\<close>, the two maps, the error or \<open>None\<close>. \<open>Inl\<close> is an
  exception that leaves \<open>parse_ini\<close>: the \<open>except\<close> clause catches
  \<open>DuplicateSectionError\<close> only. (For a missing file the source returns an empty store
  and empty maps.)
\<close>

type_synonym parse_result =
  "config option \<times> pydict \<times> (string \<times> pydict) list \<times> py_error option"

definition parse_ini :: "string \<Rightarrow> py_error + parse_result" where
  "parse_ini content =
     (let maps = name_maps content
      in case read_string (parsed_content content) of
           Inl (DuplicateSectionError h) \<Rightarrow>
             Inr (None, fst maps, snd maps, Some (DuplicateSectionError h))
         | Inl err \<Rightarrow> Inl err
         | Inr c \<Rightarrow> Inr (Some c, fst maps, snd maps, None))"

section \<open>Writing the store: the text \<open>save_ini\<close> writes\<close>

text \<open>\<open>config[section].items()\<close>: the keys of the section's view with their values.\<close>

definition section_items :: "config \<Rightarrow> string \<Rightarrow> (string \<times> string) list" where
  "section_items c s = map (\<lambda>k. (k, section_get c s k [])) (section_keys c s)"

text \<open>\<open>key_name_map.get(sl, {}).get(k, k)\<close> and \<open>section_name_map.get(section.lower(), section)\<close>\<close>

definition orig_key :: "(string \<times> pydict) list \<Rightarrow> string \<Rightarrow> string \<Rightarrow> string" where
  "orig_key knm sl k =
     (case map_of knm sl of
        None \<Rightarrow> k
      | Some d \<Rightarrow> (case map_of d k of None \<Rightarrow> k | Some k' \<Rightarrow> k'))"

definition orig_section :: "pydict \<Rightarrow> string \<Rightarrow> string" where
  "orig_section snm s = (case map_of snm (lower s) of None \<Rightarrow> s | Some s' \<Rightarrow> s')"

definition item_lines :: "config \<Rightarrow> (string \<times> pydict) list \<Rightarrow> string \<Rightarrow> string \<Rightarrow> string" where
  "item_lines c knm sl s =
     concat (map (\<lambda>kv. orig_key knm sl (fst kv) @ ''='' @ snd kv @ [CHR 0x0A]) (section_items c s))"

text \<open>The loop over \<open>config.sections()\<close>; \<open>w\<close> is \<open>wrote_any\<close>.\<close>

fun write_sections ::
  "config \<Rightarrow> pydict \<Rightarrow> (string \<times> pydict) list \<Rightarrow> bool \<Rightarrow> string list \<Rightarrow> string" where
  "write_sections c snm knm w [] = []"
| "write_sections c snm knm w (s # ss) =
     (if s = ''GLOBAL'' then write_sections c snm knm w ss
      else (if w then [CHR 0x0A] else [])
           @ ''['' @ orig_section snm s @ '']'' @ [CHR 0x0A]
           @ item_lines c knm (lower s) s
           @ write_sections c snm knm True ss)"

definition save_ini :: "config \<Rightarrow> pydict \<Rightarrow> (string \<times> pydict) list \<Rightarrow> string" where
  "save_ini c snm knm =
     (if config_contains c ''GLOBAL''
      then item_lines c knm ''global'' ''GLOBAL'' @ write_sections c snm knm True (map fst (sections c))
      else write_sections c snm knm False (map fst (sections c)))"

subsection \<open>Vocabulary of the statements and sample data\<close>

definition fx_uniform :: "string \<Rightarrow> string \<Rightarrow> string \<Rightarrow> uniform" where
  "fx_uniform t n d = \<lparr>u_type = t, u_name = n, u_meta = [], u_default = d\<rparr>"

text \<open>The names \<open>update_ini_from_widgets\<close> writes: the declarations that have a widget.\<close>

definition written :: "uniform list \<Rightarrow> (string \<rightharpoonup> widget) \<Rightarrow> string list" where
  "written us ws = map u_name (filter (\<lambda>u. ws (u_name u) \<noteq> None) us)"

definition ex_store :: config where
  "ex_store = \<lparr>defaults = [], sections = [(''Other'', [(''Strength'', ''7'')])]\<rparr>"

text \<open>
  A form with a widget of every kind, and one declaration without a widget. The floats
  are \<open>0.0\<close>, \<open>100.0\<close>, \<open>1e-05\<close> and \<open>0.5\<close>.
\<close>

definition ex_us :: "uniform list" where
  "ex_us = [fx_uniform ''int'' ''Mode'' ''0'', fx_uniform ''int'' ''Count'' ''3'',
            fx_uniform ''float'' ''Fade'' ''0.5'', fx_uniform ''float'' ''Gain'' ''1.0'',
            fx_uniform ''bool'' ''Enabled'' ''0'', fx_uniform ''string'' ''Title'' [],
            fx_uniform ''int'' ''Missing'' ''3'']"

definition ex_ws :: "string \<rightharpoonup> widget" where
  "ex_ws = [''Mode'' \<mapsto> QComboBox 3 2,
            ''Count'' \<mapsto> QSpinBox (- 5),
            ''Fade'' \<mapsto> QDoubleSpinBox (Finite False [0] 1) (Finite False [1] 3) (Finite False [1] (- 4)),
            ''Gain'' \<mapsto> QDoubleSpinBox (Finite False [0] 1) (Finite False [1] 3) (Finite False [5] 0),
            ''Enabled'' \<mapsto> QCheckBox True,
            ''Title'' \<mapsto> QLineEdit ''My Game'']"







text \<open>
  A store to read a form from: the target section holds an index with blanks around it,
  an integer, a word where a float is expected and a truth value in capitals; \<open>DEFAULT\<close>
  holds a title.
\<close>

definition ex_pull :: config where
  "ex_pull = \<lparr>defaults = [(''Title'', ''From DEFAULT'')],
     sections = [(''Fx.fx'', [(''Mode'', '' 2 ''), (''Count'', ''7''), (''Gain'', ''abc''),
                              (''Fade'', ''0.25''), (''Enabled'', ''YES'')])]\<rparr>"

definition ex_pull_us :: "uniform list" where
  "ex_pull_us = [fx_uniform ''int'' ''Mode'' ''0'', fx_uniform ''int'' ''Count'' ''3'',
                 fx_uniform ''float'' ''Gain'' ''1.0'', fx_uniform ''float'' ''Fade'' ''0.5'',
                 fx_uniform ''bool'' ''Enabled'' ''0'', fx_uniform ''string'' ''Title'' ''none'',
                 fx_uniform ''string'' ''Label'' ''Hello'']"

definition ex_form :: "string \<rightharpoonup> widget" where
  "ex_form = [''Mode'' \<mapsto> QComboBox 3 0,
              ''Count'' \<mapsto> QSpinBox 5,
              ''Gain'' \<mapsto> QDoubleSpinBox (Finite False [0] 1) (Finite False [1] 3) (Finite False [5] 0),
              ''Fade'' \<mapsto> QDoubleSpinBox (Finite False [0] 1) (Finite False [1] 3) (Finite False [5] 0),
              ''Enabled'' \<mapsto> QCheckBox False,
              ''Title'' \<mapsto> QLineEdit [],
              ''Label'' \<mapsto> QLineEdit []]"

text \<open>
  A store whose target section is empty while \<open>DEFAULT\<close> holds the key, and a store that
  holds an integer for a spin box.
\<close>

definition ex_inherit :: config where
  "ex_inherit = \<lparr>defaults = [(''Enabled'', ''yes'')], sections = [(''Fx.fx'', [])]\<rparr>"

definition ex_count :: config where
  "ex_count = \<lparr>defaults = [], sections = [(''Fx.fx'', [(''Count'', ''7'')])]\<rparr>"

text \<open>
  An instance of the float arithmetic for the examples whose result does not depend on
  it (those that set no double spin box): every literal reads as zero and \<open>setValue\<close>
  keeps the value it is given.
\<close>

definition no_floats :: externals where
  "no_floats = \<lparr>float_val = (\<lambda>s. Finite False [0] 1), bound_round = (\<lambda>lo hi x. x)\<rparr>"

text \<open>The cursor at offset \<open>i\<close> of a text.\<close>

definition cursor_at :: "string \<Rightarrow> nat \<Rightarrow> cursor" where
  "cursor_at t i = advance i (None, t)"

text \<open>Capturing groups and optional groups of a pattern.\<close>

fun is_group :: "rx \<Rightarrow> bool" where
  "is_group (Group c n g) = True"
| "is_group _ = False"

fun is_option :: "rx \<Rightarrow> bool" where
  "is_option (Option b) = True"
| "is_option _ = False"

definition ngroups :: "rx list \<Rightarrow> nat" where
  "ngroups p = length (filter is_group p)"

text \<open>A shader text that declares the uniform \<open>A\<close> twice.\<close>

definition ex_dup :: string where
  "ex_dup = ''uniform float A <> = 1;uniform int A <ui_min=2> = 2;''"

text \<open>
  A list of matches lies in the text from offset \<open>i\<close> on in source order: the offsets
  increase strictly, and each entry is the match of the pattern at its offset.
\<close>

definition in_order :: "rx list \<Rightarrow> string \<Rightarrow> nat \<Rightarrow> (nat \<times> string list) list \<Rightarrow> bool" where
  "in_order p t i ms =
     (sorted_wrt (<) (map fst ms)
      \<and> (\<forall>m \<in> set ms. i \<le> fst m \<and> fst m \<le> length t
            \<and> (\<exists>cur'. rx_match p (cursor_at t (fst m)) = Some (snd m, cur'))))"

text \<open>The example of the specification: a \<open>#define\<close> line and one uniform block.\<close>

definition ex_fx :: string where
  "ex_fx = ''#define MAX_STR 2.0'' @ [CHR 0x0A]
     @ ''uniform float Strength <ui_min=0.0; ui_max=MAX_STR;> = 0.5;''"

text \<open>
  The value \<open>ui_min\<close> or \<open>ui_max\<close> ends up with: a value that is not empty and that
  \<open>number_pattern\<close> does not match is looked up in the \<open>#define\<close> table, with a fixed
  fallback; any other value stays.
\<close>

definition fallback :: "string \<Rightarrow> string" where
  "fallback k = (if k = ''ui_min'' then ''0'' else ''100'')"

definition resolved_value :: "pydict \<Rightarrow> string \<Rightarrow> string \<Rightarrow> string" where
  "resolved_value defs k v =
     (if v \<noteq> [] \<and> re_match number_pattern v = None
      then (case map_of defs v of Some d \<Rightarrow> d | None \<Rightarrow> fallback k)
      else v)"

text \<open>
  A text begins with a header: optional whitespace, then \<open>[\<close>, then characters other
  than the newline, then \<open>]\<close>.
\<close>

definition begins_with_header :: "string \<Rightarrow> bool" where
  "begins_with_header t =
     (\<exists>ws h r. t = ws @ ''['' @ h @ '']'' @ r \<and> (\<forall>c \<in> set ws. isspace c) \<and> CHR 0x0A \<notin> set h)"

text \<open>
  The written form as the specification describes it: the \<open>GLOBAL\<close> section first and
  without a header line, then every other section in store order as a header line and
  its \<open>key=value\<close> lines, one empty line between blocks and none after the last.
\<close>

definition section_block :: "config \<Rightarrow> pydict \<Rightarrow> (string \<times> pydict) list \<Rightarrow> string \<Rightarrow> string" where
  "section_block c snm knm s =
     ''['' @ orig_section snm s @ '']'' @ [CHR 0x0A] @ item_lines c knm (lower s) s"

fun join_blocks :: "bool \<Rightarrow> string list \<Rightarrow> string" where
  "join_blocks w [] = []"
| "join_blocks w (b # bs) = (if w then [CHR 0x0A] else []) @ b @ join_blocks True bs"

definition other_sections :: "config \<Rightarrow> string list" where
  "other_sections c = filter (\<lambda>s. s \<noteq> ''GLOBAL'') (map fst (sections c))"

definition save_spec :: "config \<Rightarrow> pydict \<Rightarrow> (string \<times> pydict) list \<Rightarrow> string" where
  "save_spec c snm knm =
     (if has_section c ''GLOBAL''
      then item_lines c knm ''global'' ''GLOBAL''
           @ join_blocks True (map (section_block c snm knm) (other_sections c))
      else join_blocks False (map (section_block c snm knm) (other_sections c)))"

text \<open>Sample configuration texts and stores.\<close>

definition ex_mid_global :: string where
  "ex_mid_global = ''[A]'' @ [CHR 0x0A] @ ''x=1'' @ [CHR 0x0A] @ ''[GLOBAL]'' @ [CHR 0x0A]
     @ ''y=2'' @ [CHR 0x0A]"

definition ex_keys_first :: string where
  "ex_keys_first = ''a=1'' @ [CHR 0x0A] @ ''[S]'' @ [CHR 0x0A] @ ''b=2'' @ [CHR 0x0A]"

text \<open>A line that the structured parser can read as the header of section \<open>h\<close>.\<close>

definition is_header :: "string \<Rightarrow> string \<Rightarrow> bool" where
  "is_header line h =
     (\<not> is_comment line \<and> strip line \<noteq> [] \<and> re_match SECTCRE (strip line) = Some [h])"

text \<open>
  A text declares the section \<open>GLOBAL\<close>: one of its lines starts at the margin and is a
  header of that name. (An indented line can be the continuation of a value.)
\<close>

definition declares_global :: "string \<Rightarrow> bool" where
  "declares_global t = (\<exists>l \<in> set (readlines t). takeWhile isspace l = [] \<and> is_header l ''GLOBAL'')"

text \<open>The condition under which a line continues the value of the previous option.\<close>

definition continuation :: "reader \<Rightarrow> string \<Rightarrow> bool" where
  "continuation st l \<longleftrightarrow>
     sectname st \<noteq> None \<and> opt_set st \<and> length (takeWhile isspace l) > indent_level st"

definition ex_junk :: string where
  "ex_junk = ''[S]'' @ [CHR 0x0A] @ ''junk'' @ [CHR 0x0A]"

definition ex_twice :: string where
  "ex_twice = ''[A]'' @ [CHR 0x0A] @ ''x=1'' @ [CHR 0x0A] @ ''[A]'' @ [CHR 0x0A] @ ''y=2'' @ [CHR 0x0A]"

text \<open>Keys at the top, then the header \<open>[GLOBAL]\<close>.\<close>

definition ex_keys_global :: string where
  "ex_keys_global = ''a=1'' @ [CHR 0x0A] @ ''[GLOBAL]'' @ [CHR 0x0A] @ ''b=2'' @ [CHR 0x0A]"

definition ex_headed :: string where
  "ex_headed = ''[S]'' @ [CHR 0x0A] @ ''b=2'' @ [CHR 0x0A]"

definition ex_mid_store :: config where
  "ex_mid_store = \<lparr>defaults = [],
     sections = [(''A'', [(''x'', ''1'')]), (''GLOBAL'', [(''y'', ''2'')])]\<rparr>"

definition ex_keys_store :: config where
  "ex_keys_store = \<lparr>defaults = [],
     sections = [(''GLOBAL'', [(''a'', ''1'')]), (''S'', [(''b'', ''2'')])]\<rparr>"

section \<open>The binding layer\<close>

subsection \<open>Writing widget values into the store\<close>

lemma has_section_update:
  "has_section (c\<lparr>sections := AList.update s d (sections c)\<rparr>) t = (t = s \<or> has_section c t)"
  by (simp add: has_section_def AList.update_conv')

lemma config_set_ok:
  assumes "s \<noteq> []" "config_contains c s"
  shows "\<exists>c'. config_set c s k v = Inr c' \<and> map fst (sections c') = map fst (sections c)
     \<and> config_contains c' s
     \<and> (\<forall>t j. raw_get c' t j = (if t = s \<and> j = k then Some v else raw_get c t j))"
proof (cases "s = default_section")
  case True
  then show ?thesis
    by (simp add: config_set_def config_contains_def raw_get_def raw_section_def
        AList.update_conv')
next
  case False
  with assms(2) obtain d where d: "map_of (sections c) s = Some d"
    by (auto simp: config_contains_def has_section_def)
  then have "s \<in> fst ` set (sections c)"
    by (metis map_of_eq_None_iff option.distinct(1))
  then have keys: "map fst (AList.update s (AList.update k v d) (sections c)) = map fst (sections c)"
    by (simp add: AList.update_keys)
  show ?thesis
    using False assms(1) d keys
    by (simp add: config_set_def config_contains_def has_section_update raw_get_def
        raw_section_def AList.update_conv')
qed

lemma update_loop_ok:
  assumes "s \<noteq> []" "config_contains c s"
  shows "\<exists>c'. update_loop s ws us c = Inr c'
     \<and> map fst (sections c') = map fst (sections c)
     \<and> config_contains c' s
     \<and> (\<forall>t j. raw_get c' t j =
           (if t = s \<and> j \<in> u_name ` {u \<in> set us. ws (u_name u) \<noteq> None}
            then map_option widget_value (ws j) else raw_get c t j))"
  using assms
proof (induction us arbitrary: c)
  case Nil
  then show ?case by simp
next
  case (Cons u us)
  show ?case
  proof (cases "ws (u_name u)")
    case None
    from Cons.IH [OF Cons.prems] obtain c' where
      c': "update_loop s ws us c = Inr c'" "map fst (sections c') = map fst (sections c)"
        "config_contains c' s"
        "\<forall>t j. raw_get c' t j =
           (if t = s \<and> j \<in> u_name ` {u \<in> set us. ws (u_name u) \<noteq> None}
            then map_option widget_value (ws j) else raw_get c t j)"
      by blast
    show ?thesis using None c' by auto
  next
    case (Some w)
    from config_set_ok [OF Cons.prems, of "u_name u" "widget_value w"] obtain c1 where
      c1: "config_set c s (u_name u) (widget_value w) = Inr c1"
        "map fst (sections c1) = map fst (sections c)" "config_contains c1 s"
        "\<forall>t j. raw_get c1 t j = (if t = s \<and> j = u_name u then Some (widget_value w) else raw_get c t j)"
      by blast
    from Cons.IH [OF Cons.prems(1) c1(3)] obtain c' where
      c': "update_loop s ws us c1 = Inr c'" "map fst (sections c') = map fst (sections c1)"
        "config_contains c' s"
        "\<forall>t j. raw_get c' t j =
           (if t = s \<and> j \<in> u_name ` {u \<in> set us. ws (u_name u) \<noteq> None}
            then map_option widget_value (ws j) else raw_get c1 t j)"
      by blast
    show ?thesis using Some c1 c' by auto
  qed
qed

lemma add_section_ok:
  assumes "\<not> config_contains c s"
  shows "\<exists>c'. add_section c s = Inr c' \<and> map fst (sections c') = map fst (sections c) @ [s]
     \<and> config_contains c' s \<and> (\<forall>t j. raw_get c' t j = raw_get c t j)"
proof -
  from assms have ns: "s \<noteq> default_section" "map_of (sections c) s = None"
    by (auto simp: config_contains_def has_section_def)
  have "map_of (sections c @ [(s, [])]) t = (if t = s then Some [] else map_of (sections c) t)" for t
    using ns(2) by (auto simp: map_add_def split: option.splits)
  then show ?thesis
    using ns
    by (auto simp: add_section_def config_contains_def has_section_def raw_get_def
        raw_section_def)
qed

lemma set_written: "set (written us ws) = u_name ` {u \<in> set us. ws (u_name u) \<noteq> None}"
  by (auto simp: written_def)


text \<open>
  Claim C5. For a non-empty section name, \<open>update_ini_from_widgets\<close> raises nothing;
  afterwards the target section is in the store (appended after the existing sections
  when it was absent); every declaration that has a widget holds, under its name, the
  decimal string of the current index for a combo box, the decimal string of the integer
  for a spin box, \<open>str\<close> of the float for a double spin box, \<open>1\<close> or \<open>0\<close> for a
  check box and the text itself for a line edit; every key outside the target section or
  not named by a declaration with a widget keeps its prior value, and no key is deleted.
\<close>

theorem update_ini_from_widgets_frame:
  assumes "s \<noteq> []"
  shows "\<exists>c'. update_ini_from_widgets c s us ws = Inr c'
     \<and> config_contains c' s
     \<and> map fst (sections c') = map fst (sections c) @ (if config_contains c s then [] else [s])
     \<and> (\<forall>u \<in> set us.
           (\<forall>n i. ws (u_name u) = Some (QComboBox n i) \<longrightarrow>
              raw_get c' s (u_name u) = Some (str_int i))
         \<and> (\<forall>n. ws (u_name u) = Some (QSpinBox n) \<longrightarrow>
              raw_get c' s (u_name u) = Some (str_int n))
         \<and> (\<forall>lo hi x. ws (u_name u) = Some (QDoubleSpinBox lo hi x) \<longrightarrow>
              raw_get c' s (u_name u) = Some (str_float x))
         \<and> (\<forall>b. ws (u_name u) = Some (QCheckBox b) \<longrightarrow>
              raw_get c' s (u_name u) = Some (if b then ''1'' else ''0''))
         \<and> (\<forall>t. ws (u_name u) = Some (QLineEdit t) \<longrightarrow>
              raw_get c' s (u_name u) = Some t))
     \<and> (\<forall>t k. (t \<noteq> s \<or> k \<notin> set (written us ws)) \<longrightarrow> raw_get c' t k = raw_get c t k)
     \<and> (\<forall>t k. raw_get c t k \<noteq> None \<longrightarrow> raw_get c' t k \<noteq> None)"
proof -
  obtain c0 where c0: "(if \<not> config_contains c s then add_section c s else Inr c) = Inr c0"
      "map fst (sections c0) = map fst (sections c) @ (if config_contains c s then [] else [s])"
      "config_contains c0 s" "\<forall>t j. raw_get c0 t j = raw_get c t j"
    using add_section_ok [of c s] by (cases "config_contains c s") auto
  from update_loop_ok [OF assms c0(3), of ws us] obtain c' where
    c': "update_loop s ws us c0 = Inr c'" "map fst (sections c') = map fst (sections c0)"
      "config_contains c' s"
      "\<forall>t j. raw_get c' t j =
         (if t = s \<and> j \<in> u_name ` {u \<in> set us. ws (u_name u) \<noteq> None}
          then map_option widget_value (ws j) else raw_get c0 t j)"
    by blast
  have r: "update_ini_from_widgets c s us ws = Inr c'"
    using c0(1) c'(1) by (simp add: update_ini_from_widgets_def)
  have g: "raw_get c' t j =
         (if t = s \<and> j \<in> set (written us ws)
          then map_option widget_value (ws j) else raw_get c t j)" for t j
    using c'(4) c0(4) by (simp add: set_written)
  have w: "raw_get c' s (u_name u) = Some (widget_value w)"
    if "u \<in> set us" "ws (u_name u) = Some w" for u w
    using that by (auto simp: g set_written)
  have v: "\<forall>u \<in> set us.
           (\<forall>n i. ws (u_name u) = Some (QComboBox n i) \<longrightarrow>
              raw_get c' s (u_name u) = Some (str_int i))
         \<and> (\<forall>n. ws (u_name u) = Some (QSpinBox n) \<longrightarrow>
              raw_get c' s (u_name u) = Some (str_int n))
         \<and> (\<forall>lo hi x. ws (u_name u) = Some (QDoubleSpinBox lo hi x) \<longrightarrow>
              raw_get c' s (u_name u) = Some (str_float x))
         \<and> (\<forall>b. ws (u_name u) = Some (QCheckBox b) \<longrightarrow>
              raw_get c' s (u_name u) = Some (if b then ''1'' else ''0''))
         \<and> (\<forall>t. ws (u_name u) = Some (QLineEdit t) \<longrightarrow>
              raw_get c' s (u_name u) = Some t)"
  proof (intro ballI conjI allI impI)
    fix u n i assume "u \<in> set us" "ws (u_name u) = Some (QComboBox n i)"
    from w [OF this] show "raw_get c' s (u_name u) = Some (str_int i)"
      by (simp add: widget_value_def)
  next
    fix u n assume "u \<in> set us" "ws (u_name u) = Some (QSpinBox n)"
    from w [OF this] show "raw_get c' s (u_name u) = Some (str_int n)"
      by (simp add: widget_value_def)
  next
    fix u lo hi x assume "u \<in> set us" "ws (u_name u) = Some (QDoubleSpinBox lo hi x)"
    from w [OF this] show "raw_get c' s (u_name u) = Some (str_float x)"
      by (simp add: widget_value_def)
  next
    fix u b assume "u \<in> set us" "ws (u_name u) = Some (QCheckBox b)"
    from w [OF this] show "raw_get c' s (u_name u) = Some (if b then ''1'' else ''0'')"
      by (simp add: widget_value_def)
  next
    fix u t assume "u \<in> set us" "ws (u_name u) = Some (QLineEdit t)"
    from w [OF this] show "raw_get c' s (u_name u) = Some t"
      by (simp add: widget_value_def)
  qed
  have f: "\<forall>t k. (t \<noteq> s \<or> k \<notin> set (written us ws)) \<longrightarrow> raw_get c' t k = raw_get c t k"
    by (auto simp: g)
  have k: "\<forall>t k. raw_get c t k \<noteq> None \<longrightarrow> raw_get c' t k \<noteq> None"
    by (auto simp: g set_written)
  show ?thesis
  proof (intro exI [of _ c'] conjI)
    show "map fst (sections c') = map fst (sections c) @ (if config_contains c s then [] else [s])"
      by (simp add: c'(2) c0(2))
  qed (fact r c'(3) v f k)+
qed

lemma ex_store_no_fx: "\<not> config_contains ex_store ''Fx.fx''"
  by (simp add: config_contains_def has_section_def ex_store_def default_section_def)

lemma ex_written:
  "written ex_us ex_ws = [''Mode'', ''Count'', ''Fade'', ''Gain'', ''Enabled'', ''Title'']"
  by (simp add: written_def ex_us_def ex_ws_def fx_uniform_def)

lemma ex_us_names:
  "u_name (fx_uniform t n d) = n"
  by (simp add: fx_uniform_def)

lemma ex_renderings:
  "str_int 2 = ''2''" "str_int (- 5) = ''-5''"
  "str_float (Finite False [1] (- 4)) = ''1e-05''" "str_float (Finite False [5] 0) = ''0.5''"
  by code_simp+

theorem update_ini_from_widgets_frame_witness:
  "''Fx.fx'' \<noteq> [] \<and>
   (\<exists>c'. update_ini_from_widgets ex_store ''Fx.fx'' ex_us ex_ws = Inr c'
      \<and> config_contains c' ''Fx.fx''
      \<and> map fst (sections c') = [''Other'', ''Fx.fx'']
      \<and> raw_get c' ''Fx.fx'' ''Mode'' = Some ''2''
      \<and> raw_get c' ''Fx.fx'' ''Count'' = Some ''-5''
      \<and> raw_get c' ''Fx.fx'' ''Fade'' = Some ''1e-05''
      \<and> raw_get c' ''Fx.fx'' ''Gain'' = Some ''0.5''
      \<and> raw_get c' ''Fx.fx'' ''Enabled'' = Some ''1''
      \<and> raw_get c' ''Fx.fx'' ''Title'' = Some ''My Game''
      \<and> raw_get c' ''Fx.fx'' ''Missing'' = None
      \<and> raw_get c' ''Other'' ''Strength'' = Some ''7'')"
proof -
  have ne: "''Fx.fx'' \<noteq> []" by simp
  from update_ini_from_widgets_frame [OF ne, of ex_store ex_us ex_ws]
  obtain c' where c':
    "update_ini_from_widgets ex_store ''Fx.fx'' ex_us ex_ws = Inr c'"
    "config_contains c' ''Fx.fx''"
    "map fst (sections c') = map fst (sections ex_store)
       @ (if config_contains ex_store ''Fx.fx'' then [] else [''Fx.fx''])"
    "\<forall>u \<in> set ex_us.
           (\<forall>n i. ex_ws (u_name u) = Some (QComboBox n i) \<longrightarrow>
              raw_get c' ''Fx.fx'' (u_name u) = Some (str_int i))
         \<and> (\<forall>n. ex_ws (u_name u) = Some (QSpinBox n) \<longrightarrow>
              raw_get c' ''Fx.fx'' (u_name u) = Some (str_int n))
         \<and> (\<forall>lo hi x. ex_ws (u_name u) = Some (QDoubleSpinBox lo hi x) \<longrightarrow>
              raw_get c' ''Fx.fx'' (u_name u) = Some (str_float x))
         \<and> (\<forall>b. ex_ws (u_name u) = Some (QCheckBox b) \<longrightarrow>
              raw_get c' ''Fx.fx'' (u_name u) = Some (if b then ''1'' else ''0''))
         \<and> (\<forall>t. ex_ws (u_name u) = Some (QLineEdit t) \<longrightarrow>
              raw_get c' ''Fx.fx'' (u_name u) = Some t)"
    "\<forall>t k. (t \<noteq> ''Fx.fx'' \<or> k \<notin> set (written ex_us ex_ws)) \<longrightarrow>
       raw_get c' t k = raw_get ex_store t k"
    by (elim exE conjE)
  have s: "map fst (sections c') = [''Other'', ''Fx.fx'']"
    using c'(3) ex_store_no_fx by (simp add: ex_store_def)
  have "fx_uniform ''int'' ''Mode'' ''0'' \<in> set ex_us" by (simp add: ex_us_def)
  from c'(4) [rule_format, OF this]
  have "ex_ws ''Mode'' = Some (QComboBox 3 2) \<longrightarrow> raw_get c' ''Fx.fx'' ''Mode'' = Some (str_int 2)"
    unfolding ex_us_names by blast
  then have a1: "raw_get c' ''Fx.fx'' ''Mode'' = Some ''2''"
    by (simp add: ex_ws_def ex_renderings)
  have "fx_uniform ''int'' ''Count'' ''3'' \<in> set ex_us" by (simp add: ex_us_def)
  from c'(4) [rule_format, OF this]
  have "ex_ws ''Count'' = Some (QSpinBox (- 5)) \<longrightarrow> raw_get c' ''Fx.fx'' ''Count'' = Some (str_int (- 5))"
    unfolding ex_us_names by blast
  then have a2: "raw_get c' ''Fx.fx'' ''Count'' = Some ''-5''"
    by (simp add: ex_ws_def ex_renderings)
  have "fx_uniform ''float'' ''Fade'' ''0.5'' \<in> set ex_us" by (simp add: ex_us_def)
  from c'(4) [rule_format, OF this]
  have "ex_ws ''Fade'' = Some (QDoubleSpinBox (Finite False [0] 1) (Finite False [1] 3) (Finite False [1] (- 4)))
      \<longrightarrow> raw_get c' ''Fx.fx'' ''Fade'' = Some (str_float (Finite False [1] (- 4)))"
    unfolding ex_us_names by blast
  then have "raw_get c' ''Fx.fx'' ''Fade'' = Some (str_float (Finite False [1] (- 4)))"
    by (simp add: ex_ws_def)
  then have a3: "raw_get c' ''Fx.fx'' ''Fade'' = Some ''1e-05''"
    by (simp only: ex_renderings)
  have "fx_uniform ''float'' ''Gain'' ''1.0'' \<in> set ex_us" by (simp add: ex_us_def)
  from c'(4) [rule_format, OF this]
  have "ex_ws ''Gain'' = Some (QDoubleSpinBox (Finite False [0] 1) (Finite False [1] 3) (Finite False [5] 0))
      \<longrightarrow> raw_get c' ''Fx.fx'' ''Gain'' = Some (str_float (Finite False [5] 0))"
    unfolding ex_us_names by blast
  then have a4: "raw_get c' ''Fx.fx'' ''Gain'' = Some ''0.5''"
    by (simp add: ex_ws_def ex_renderings)
  have "fx_uniform ''bool'' ''Enabled'' ''0'' \<in> set ex_us" by (simp add: ex_us_def)
  from c'(4) [rule_format, OF this]
  have "ex_ws ''Enabled'' = Some (QCheckBox True) \<longrightarrow> raw_get c' ''Fx.fx'' ''Enabled'' = Some (if True then ''1'' else ''0'')"
    unfolding ex_us_names by blast
  then have a5: "raw_get c' ''Fx.fx'' ''Enabled'' = Some ''1''"
    by (simp add: ex_ws_def)
  have "fx_uniform ''string'' ''Title'' [] \<in> set ex_us" by (simp add: ex_us_def)
  from c'(4) [rule_format, OF this]
  have "ex_ws ''Title'' = Some (QLineEdit ''My Game'') \<longrightarrow> raw_get c' ''Fx.fx'' ''Title'' = Some ''My Game''"
    unfolding ex_us_names by blast
  then have a6: "raw_get c' ''Fx.fx'' ''Title'' = Some ''My Game''"
    by (simp add: ex_ws_def)
  have "raw_get c' ''Fx.fx'' ''Missing'' = raw_get ex_store ''Fx.fx'' ''Missing''"
    using c'(5) unfolding ex_written by simp
  then have b: "raw_get c' ''Fx.fx'' ''Missing'' = None"
    by (simp add: raw_get_def raw_section_def ex_store_def default_section_def)
  have "raw_get c' ''Other'' ''Strength'' = raw_get ex_store ''Other'' ''Strength''"
    using c'(5) by simp
  then have d: "raw_get c' ''Other'' ''Strength'' = Some ''7''"
    by (simp add: raw_get_def raw_section_def ex_store_def default_section_def)
  show ?thesis
    by (intro conjI exI [of _ c']) (fact ne c'(1) c'(2) s a1 a2 a3 a4 a5 a6 b d)+
qed

text \<open>
  A double spin box that holds \<open>0.00001\<close> is written as \<open>1e-05\<close>: scientific notation,
  which the program's own pattern for a numeric literal does not match.
\<close>

theorem update_ini_from_widgets_scientific:
  "update_ini_from_widgets ex_store ''Fx.fx'' [fx_uniform ''float'' ''Fade'' ''0.5'']
     [''Fade'' \<mapsto> QDoubleSpinBox (Finite False [0] 1) (Finite False [1] 3) (Finite False [1] (- 4))]
   = Inr \<lparr>defaults = [],
          sections = [(''Other'', [(''Strength'', ''7'')]), (''Fx.fx'', [(''Fade'', ''1e-05'')])]\<rparr>
   \<and> re_match number_pattern ''1e-05'' = None
   \<and> re_match number_pattern ''0.00001'' \<noteq> None"
  by code_simp

subsection \<open>Reading values from the store\<close>

text \<open>
  Claim C10. When the target section is not in the store, \<open>set_widgets_from_ini\<close>
  returns at once: no widget is assigned, so no default is applied and every held value
  stays as it was.
\<close>

theorem set_widgets_from_ini_absent:
  "\<not> config_contains c s \<Longrightarrow> set_widgets_from_ini ext c s us ws = ws"
  by (simp add: set_widgets_from_ini_def)

theorem set_widgets_from_ini_absent_witness:
  "\<not> config_contains ex_store ''Fx.fx'' \<and>
   set_widgets_from_ini no_floats ex_store ''Fx.fx''
     [fx_uniform ''bool'' ''Strength'' ''1''] [''Strength'' \<mapsto> QCheckBox False]
   = [''Strength'' \<mapsto> QCheckBox False]"
proof -
  have nc: "\<not> config_contains ex_store ''Fx.fx''"
    by (simp add: config_contains_def has_section_def ex_store_def default_section_def)
  show ?thesis
    using nc set_widgets_from_ini_absent [OF nc, of no_floats
        "[fx_uniform ''bool'' ''Strength'' ''1'']" "[''Strength'' \<mapsto> QCheckBox False]"]
    by simp
qed

subsection \<open>The layout check\<close>












subsection \<open>Values read into the widgets\<close>

lemma set_widget_other: "m \<noteq> u_name u \<Longrightarrow> set_widget ext c s u ws m = ws m"
  by (simp add: set_widget_def split: option.splits)

lemma set_widget_self:
  "set_widget ext c s u ws (u_name u) =
     (case ws (u_name u) of
        None \<Rightarrow> None
      | Some w \<Rightarrow> Some (case try_set ext w (section_get c s (u_name u) (u_default u)) of
                         None \<Rightarrow> w | Some w' \<Rightarrow> w'))"
  by (simp add: set_widget_def split: option.splits)

lemma set_widgets_other:
  "m \<notin> u_name ` set us \<Longrightarrow> foldl (\<lambda>ws u. set_widget ext c s u ws) ws us m = ws m"
  by (induction us arbitrary: ws) (simp_all add: set_widget_other)

lemma try_set_cases:
  "try_set ext (QComboBox n i) v =
     (case py_int v of
        None \<Rightarrow> None
      | Some j \<Rightarrow> if j < - 2147483648 \<or> 2147483647 < j then None
                  else Some (QComboBox n (if 0 \<le> j \<and> j < int n then j else - 1)))"
  "try_set ext (QSpinBox k) v = None"
  "try_set ext (QDoubleSpinBox lo hi x) v =
     (if is_float_literal v then Some (QDoubleSpinBox lo hi (bound_round ext lo hi (float_val ext v)))
      else None)"
  "try_set ext (QCheckBox b) v = Some (QCheckBox (lower v \<in> {''1'', ''true'', ''yes''}))"
  "try_set ext (QLineEdit t) v = Some (QLineEdit (take 32767 v))"
  by (simp_all add: try_set_def setCurrentIndex_def setValue_def setChecked_def setText_def
      py_float_def truth_set_def split: option.splits)

lemma fx_uniform_simps: "u_name (fx_uniform t n d) = n" "u_default (fx_uniform t n d) = d"
  by (simp_all add: fx_uniform_def)

lemma ex_pull_contains: "config_contains ex_pull ''Fx.fx''"
  by (simp add: config_contains_def has_section_def ex_pull_def)

lemma ex_pull_values:
  "py_int '' 2 '' = Some 2" "is_float_literal ''abc'' = False" "is_float_literal ''0.25'' = True"
  "lower ''YES'' = ''yes''"
  by code_simp+

lemma ex_pull_texts:
  "take 32767 ''From DEFAULT'' = ''From DEFAULT''" "take 32767 ''Hello'' = ''Hello''"
  by simp_all

lemma ex_pull_split:
  "ex_pull_us = [] @ fx_uniform ''int'' ''Mode'' ''0'' # tl ex_pull_us"
  "ex_pull_us = take 2 ex_pull_us @ fx_uniform ''float'' ''Gain'' ''1.0'' # drop 3 ex_pull_us"
  "ex_pull_us = take 3 ex_pull_us @ fx_uniform ''float'' ''Fade'' ''0.5'' # drop 4 ex_pull_us"
  "ex_pull_us = take 4 ex_pull_us @ fx_uniform ''bool'' ''Enabled'' ''0'' # drop 5 ex_pull_us"
  "ex_pull_us = take 5 ex_pull_us @ fx_uniform ''string'' ''Title'' ''none'' # drop 6 ex_pull_us"
  "ex_pull_us = take 6 ex_pull_us @ fx_uniform ''string'' ''Label'' ''Hello'' # []"
  by (simp_all add: ex_pull_us_def)

lemma ex_pull_names:
  "u_name ` set (tl ex_pull_us) = {''Count'', ''Gain'', ''Fade'', ''Enabled'', ''Title'', ''Label''}"
  "u_name ` set (take 2 ex_pull_us) = {''Mode'', ''Count''}"
  "u_name ` set (drop 3 ex_pull_us) = {''Fade'', ''Enabled'', ''Title'', ''Label''}"
  "u_name ` set (take 3 ex_pull_us) = {''Mode'', ''Count'', ''Gain''}"
  "u_name ` set (drop 4 ex_pull_us) = {''Enabled'', ''Title'', ''Label''}"
  "u_name ` set (take 4 ex_pull_us) = {''Mode'', ''Count'', ''Gain'', ''Fade''}"
  "u_name ` set (drop 5 ex_pull_us) = {''Title'', ''Label''}"
  "u_name ` set (take 5 ex_pull_us) = {''Mode'', ''Count'', ''Gain'', ''Fade'', ''Enabled''}"
  "u_name ` set (drop 6 ex_pull_us) = {''Label''}"
  "u_name ` set (take 6 ex_pull_us) = {''Mode'', ''Count'', ''Gain'', ''Fade'', ''Enabled'', ''Title''}"
  "u_name ` set ex_pull_us = {''Mode'', ''Count'', ''Gain'', ''Fade'', ''Enabled'', ''Title'', ''Label''}"
  by (auto simp: ex_pull_us_def fx_uniform_def)


text \<open>
  Claim C4. Let the target section be in the store, and take a declaration that is the
  last of its name in the list. The value used for it is the value of the key equal to
  its name in the target section, else the value of that key in \<open>DEFAULT\<close>, else the
  declaration's default. With the widget of that name as the loop finds it: a combo box
  gets the index \<open>int\<close> reads from the value (no current item, \<open>-1\<close>, when it is not an
  item) and keeps its index when \<open>int\<close> fails or the number does not fit a C \<open>int\<close>; a
  double spin box gets what \<open>setValue\<close> makes of the float and keeps its value when
  \<open>float\<close> rejects the string; a check box is checked exactly when the lowercased value
  is \<open>1\<close>, \<open>true\<close> or \<open>yes\<close>; a line edit gets the text, cut to its maximum length.
  A declaration without a widget changes nothing, the widget found is the initial one
  when no earlier declaration has the name, and a name that is not declared keeps its
  widget. The function is total: nothing is raised. (The integer spin box is left out.)
\<close>

theorem set_widgets_from_ini_pull:
  assumes "config_contains c s" and "u_name u \<notin> u_name ` set post"
  shows "let k = u_name u;
             v = (case (case map_of (sections c) s of None \<Rightarrow> None | Some d \<Rightarrow> map_of d k) of
                    Some x \<Rightarrow> x
                  | None \<Rightarrow> (case map_of (defaults c) k of Some x \<Rightarrow> x | None \<Rightarrow> u_default u));
             held = set_widgets_from_ini ext c s pre ws;
             r = set_widgets_from_ini ext c s (pre @ u # post) ws
         in (held k = None \<longrightarrow> r k = None)
          \<and> (\<forall>n i. held k = Some (QComboBox n i) \<longrightarrow>
                r k = Some (QComboBox n
                  (case py_int v of
                     None \<Rightarrow> i
                   | Some j \<Rightarrow> if j < - 2147483648 \<or> 2147483647 < j then i
                               else if 0 \<le> j \<and> j < int n then j else - 1)))
          \<and> (\<forall>lo hi x. held k = Some (QDoubleSpinBox lo hi x) \<longrightarrow>
                r k = Some (QDoubleSpinBox lo hi
                  (if is_float_literal v then bound_round ext lo hi (float_val ext v) else x)))
          \<and> (\<forall>b. held k = Some (QCheckBox b) \<longrightarrow>
                r k = Some (QCheckBox (lower v \<in> {''1'', ''true'', ''yes''})))
          \<and> (\<forall>t. held k = Some (QLineEdit t) \<longrightarrow> r k = Some (QLineEdit (take 32767 v)))
          \<and> (k \<notin> u_name ` set pre \<longrightarrow> held k = ws k)
          \<and> (\<forall>m. m \<notin> u_name ` set (pre @ u # post) \<longrightarrow> r m = ws m)"
proof -
  define k where "k = u_name u"
  define v where "v = section_get c s k (u_default u)"
  define held where "held = set_widgets_from_ini ext c s pre ws"
  define r where "r = set_widgets_from_ini ext c s (pre @ u # post) ws"
  have held: "held = foldl (\<lambda>ws u. set_widget ext c s u ws) ws pre"
    using assms(1) by (simp add: held_def set_widgets_from_ini_def)
  have r: "r = foldl (\<lambda>ws u. set_widget ext c s u ws) (set_widget ext c s u held) post"
    using assms(1) by (simp add: r_def held set_widgets_from_ini_def)
  have rk: "r k = (case held k of
        None \<Rightarrow> None
      | Some w \<Rightarrow> Some (case try_set ext w v of None \<Rightarrow> w | Some w' \<Rightarrow> w'))"
    unfolding r k_def v_def using assms(2) by (simp add: set_widgets_other set_widget_self)
  have a0: "held k = None \<longrightarrow> r k = None" by (simp add: rk)
  have a1: "\<forall>n i. held k = Some (QComboBox n i) \<longrightarrow>
                r k = Some (QComboBox n
                  (case py_int v of
                     None \<Rightarrow> i
                   | Some j \<Rightarrow> if j < - 2147483648 \<or> 2147483647 < j then i
                               else if 0 \<le> j \<and> j < int n then j else - 1))"
    by (simp add: rk try_set_cases split: option.splits)
  have a3: "\<forall>lo hi x. held k = Some (QDoubleSpinBox lo hi x) \<longrightarrow>
                r k = Some (QDoubleSpinBox lo hi
                  (if is_float_literal v then bound_round ext lo hi (float_val ext v) else x))"
    by (simp add: rk try_set_cases)
  have a4: "\<forall>b. held k = Some (QCheckBox b) \<longrightarrow>
                r k = Some (QCheckBox (lower v \<in> {''1'', ''true'', ''yes''}))"
    by (simp add: rk try_set_cases)
  have a5: "\<forall>t. held k = Some (QLineEdit t) \<longrightarrow> r k = Some (QLineEdit (take 32767 v))"
    by (simp add: rk try_set_cases)
  have a6: "k \<notin> u_name ` set pre \<longrightarrow> held k = ws k"
    by (simp add: held set_widgets_other)
  have a7: "\<forall>m. m \<notin> u_name ` set (pre @ u # post) \<longrightarrow> r m = ws m"
    using assms(1) set_widgets_other [of _ "pre @ u # post" ext c s ws]
    by (simp add: r_def set_widgets_from_ini_def)
  have "(held k = None \<longrightarrow> r k = None)
          \<and> (\<forall>n i. held k = Some (QComboBox n i) \<longrightarrow>
                r k = Some (QComboBox n
                  (case py_int v of
                     None \<Rightarrow> i
                   | Some j \<Rightarrow> if j < - 2147483648 \<or> 2147483647 < j then i
                               else if 0 \<le> j \<and> j < int n then j else - 1)))
          \<and> (\<forall>lo hi x. held k = Some (QDoubleSpinBox lo hi x) \<longrightarrow>
                r k = Some (QDoubleSpinBox lo hi
                  (if is_float_literal v then bound_round ext lo hi (float_val ext v) else x)))
          \<and> (\<forall>b. held k = Some (QCheckBox b) \<longrightarrow>
                r k = Some (QCheckBox (lower v \<in> {''1'', ''true'', ''yes''})))
          \<and> (\<forall>t. held k = Some (QLineEdit t) \<longrightarrow> r k = Some (QLineEdit (take 32767 v)))
          \<and> (k \<notin> u_name ` set pre \<longrightarrow> held k = ws k)
          \<and> (\<forall>m. m \<notin> u_name ` set (pre @ u # post) \<longrightarrow> r m = ws m)"
    by (intro conjI) (fact a0 a1 a3 a4 a5 a6 a7)+
  then show ?thesis
    unfolding Let_def k_def v_def held_def r_def section_get_def .
qed

theorem set_widgets_from_ini_pull_witness:
  "config_contains ex_pull ''Fx.fx''
   \<and> (\<forall>ext. map (set_widgets_from_ini ext ex_pull ''Fx.fx'' ex_pull_us ex_form)
               [''Mode'', ''Gain'', ''Fade'', ''Enabled'', ''Title'', ''Label'', ''Other'']
         = [Some (QComboBox 3 2),
            Some (QDoubleSpinBox (Finite False [0] 1) (Finite False [1] 3) (Finite False [5] 0)),
            Some (QDoubleSpinBox (Finite False [0] 1) (Finite False [1] 3)
                    (bound_round ext (Finite False [0] 1) (Finite False [1] 3) (float_val ext ''0.25''))),
            Some (QCheckBox True),
            Some (QLineEdit ''From DEFAULT''),
            Some (QLineEdit ''Hello''),
            None])"
proof -
  note cc = ex_pull_contains
  have all: "map (set_widgets_from_ini ext ex_pull ''Fx.fx'' ex_pull_us ex_form)
               [''Mode'', ''Gain'', ''Fade'', ''Enabled'', ''Title'', ''Label'', ''Other'']
         = [Some (QComboBox 3 2),
            Some (QDoubleSpinBox (Finite False [0] 1) (Finite False [1] 3) (Finite False [5] 0)),
            Some (QDoubleSpinBox (Finite False [0] 1) (Finite False [1] 3)
                    (bound_round ext (Finite False [0] 1) (Finite False [1] 3) (float_val ext ''0.25''))),
            Some (QCheckBox True),
            Some (QLineEdit ''From DEFAULT''),
            Some (QLineEdit ''Hello''),
            None]" for ext
  proof -
    let ?r = "set_widgets_from_ini ext ex_pull ''Fx.fx'' ex_pull_us ex_form"
    let ?lo = "Finite False [0] 1" and ?hi = "Finite False [1] 3" and ?x = "Finite False [5] 0"
    have p1: "''Mode'' \<notin> u_name ` set (tl ex_pull_us)" by (simp add: ex_pull_names)
    note t1 = set_widgets_from_ini_pull [OF cc, where u = "fx_uniform ''int'' ''Mode'' ''0''"
        and pre = "[]" and post = "tl ex_pull_us" and ext = ext and ws = ex_form,
        unfolded Let_def fx_uniform_simps, OF p1, unfolded ex_pull_split(1) [symmetric]]
    have h1: "set_widgets_from_ini ext ex_pull ''Fx.fx'' [] ex_form ''Mode'' = Some (QComboBox 3 0)"
      using t1 [THEN conjunct2, THEN conjunct2, THEN conjunct2, THEN conjunct2, THEN conjunct2,
          THEN conjunct1]
      by (simp add: ex_form_def)
    have m: "?r ''Mode'' = Some (QComboBox 3 2)"
      using t1 [THEN conjunct2, THEN conjunct1, rule_format, OF h1]
      by (simp add: ex_pull_def ex_pull_values ex_pull_texts)
    have p2: "''Gain'' \<notin> u_name ` set (drop 3 ex_pull_us)" by (simp add: ex_pull_names)
    note t2 = set_widgets_from_ini_pull [OF cc, where u = "fx_uniform ''float'' ''Gain'' ''1.0''"
        and pre = "take 2 ex_pull_us" and post = "drop 3 ex_pull_us" and ext = ext and ws = ex_form,
        unfolded Let_def fx_uniform_simps, OF p2, unfolded ex_pull_split(2) [symmetric]]
    have h2: "set_widgets_from_ini ext ex_pull ''Fx.fx'' (take 2 ex_pull_us) ex_form ''Gain''
        = Some (QDoubleSpinBox ?lo ?hi ?x)"
      using t2 [THEN conjunct2, THEN conjunct2, THEN conjunct2, THEN conjunct2, THEN conjunct2,
          THEN conjunct1]
      by (simp add: ex_form_def ex_pull_names)
    have g: "?r ''Gain'' = Some (QDoubleSpinBox ?lo ?hi ?x)"
      using t2 [THEN conjunct2, THEN conjunct2, THEN conjunct1, rule_format, OF h2]
      by (simp add: ex_pull_def ex_pull_values ex_pull_texts)
    have p3: "''Fade'' \<notin> u_name ` set (drop 4 ex_pull_us)" by (simp add: ex_pull_names)
    note t3 = set_widgets_from_ini_pull [OF cc, where u = "fx_uniform ''float'' ''Fade'' ''0.5''"
        and pre = "take 3 ex_pull_us" and post = "drop 4 ex_pull_us" and ext = ext and ws = ex_form,
        unfolded Let_def fx_uniform_simps, OF p3, unfolded ex_pull_split(3) [symmetric]]
    have h3: "set_widgets_from_ini ext ex_pull ''Fx.fx'' (take 3 ex_pull_us) ex_form ''Fade''
        = Some (QDoubleSpinBox ?lo ?hi ?x)"
      using t3 [THEN conjunct2, THEN conjunct2, THEN conjunct2, THEN conjunct2, THEN conjunct2,
          THEN conjunct1]
      by (simp add: ex_form_def ex_pull_names)
    have f: "?r ''Fade'' = Some (QDoubleSpinBox ?lo ?hi (bound_round ext ?lo ?hi (float_val ext ''0.25'')))"
      using t3 [THEN conjunct2, THEN conjunct2, THEN conjunct1, rule_format, OF h3]
      by (simp add: ex_pull_def ex_pull_values ex_pull_texts)
    have p4: "''Enabled'' \<notin> u_name ` set (drop 5 ex_pull_us)" by (simp add: ex_pull_names)
    note t4 = set_widgets_from_ini_pull [OF cc, where u = "fx_uniform ''bool'' ''Enabled'' ''0''"
        and pre = "take 4 ex_pull_us" and post = "drop 5 ex_pull_us" and ext = ext and ws = ex_form,
        unfolded Let_def fx_uniform_simps, OF p4, unfolded ex_pull_split(4) [symmetric]]
    have h4: "set_widgets_from_ini ext ex_pull ''Fx.fx'' (take 4 ex_pull_us) ex_form ''Enabled''
        = Some (QCheckBox False)"
      using t4 [THEN conjunct2, THEN conjunct2, THEN conjunct2, THEN conjunct2, THEN conjunct2,
          THEN conjunct1]
      by (simp add: ex_form_def ex_pull_names)
    have b: "?r ''Enabled'' = Some (QCheckBox True)"
      using t4 [THEN conjunct2, THEN conjunct2, THEN conjunct2, THEN conjunct1, rule_format, OF h4]
      by (simp add: ex_pull_def ex_pull_values ex_pull_texts)
    have p5: "''Title'' \<notin> u_name ` set (drop 6 ex_pull_us)" by (simp add: ex_pull_names)
    note t5 = set_widgets_from_ini_pull [OF cc, where u = "fx_uniform ''string'' ''Title'' ''none''"
        and pre = "take 5 ex_pull_us" and post = "drop 6 ex_pull_us" and ext = ext and ws = ex_form,
        unfolded Let_def fx_uniform_simps, OF p5, unfolded ex_pull_split(5) [symmetric]]
    have h5: "set_widgets_from_ini ext ex_pull ''Fx.fx'' (take 5 ex_pull_us) ex_form ''Title''
        = Some (QLineEdit [])"
      using t5 [THEN conjunct2, THEN conjunct2, THEN conjunct2, THEN conjunct2, THEN conjunct2,
          THEN conjunct1]
      by (simp add: ex_form_def ex_pull_names)
    have t: "?r ''Title'' = Some (QLineEdit ''From DEFAULT'')"
      using t5 [THEN conjunct2, THEN conjunct2, THEN conjunct2, THEN conjunct2, THEN conjunct1,
          rule_format, OF h5]
      by (simp add: ex_pull_def ex_pull_values ex_pull_texts)
    have p6: "''Label'' \<notin> u_name ` set []" by simp
    note t6 = set_widgets_from_ini_pull [OF cc, where u = "fx_uniform ''string'' ''Label'' ''Hello''"
        and pre = "take 6 ex_pull_us" and post = "[]" and ext = ext and ws = ex_form,
        unfolded Let_def fx_uniform_simps, OF p6, unfolded ex_pull_split(6) [symmetric]]
    have h6: "set_widgets_from_ini ext ex_pull ''Fx.fx'' (take 6 ex_pull_us) ex_form ''Label''
        = Some (QLineEdit [])"
      using t6 [THEN conjunct2, THEN conjunct2, THEN conjunct2, THEN conjunct2, THEN conjunct2,
          THEN conjunct1]
      by (simp add: ex_form_def ex_pull_names)
    have l: "?r ''Label'' = Some (QLineEdit ''Hello'')"
      using t6 [THEN conjunct2, THEN conjunct2, THEN conjunct2, THEN conjunct2, THEN conjunct1,
          rule_format, OF h6]
      by (simp add: ex_pull_def ex_pull_values ex_pull_texts)
    have "''Other'' \<notin> u_name ` set ex_pull_us" by (simp add: ex_pull_names)
    with t6 [THEN conjunct2, THEN conjunct2, THEN conjunct2, THEN conjunct2, THEN conjunct2,
          THEN conjunct2, rule_format, of "''Other''"]
    have o: "?r ''Other'' = None" by (simp add: ex_form_def)
    show ?thesis by (simp only: list.map m g f b t l o)
  qed
  show ?thesis using cc all by blast
qed

text \<open>
  The target section has no key \<open>Enabled\<close> and the declaration's default is \<open>0\<close>, yet the
  check box ends up checked: the value comes from \<open>DEFAULT\<close>.
\<close>

theorem set_widgets_from_ini_inherits:
  "config_contains ex_inherit ''Fx.fx''
   \<and> raw_get ex_inherit ''Fx.fx'' ''Enabled'' = None
   \<and> set_widgets_from_ini no_floats ex_inherit ''Fx.fx'' [fx_uniform ''bool'' ''Enabled'' ''0'']
        [''Enabled'' \<mapsto> QCheckBox False] ''Enabled''
      = Some (QCheckBox True)
   \<and> lower ''0'' \<notin> {''1'', ''true'', ''yes''}"
  by code_simp

text \<open>
  An integer spin box is never set: \<open>setValue\<close> is handed a float, which PyQt6 refuses,
  and the error is swallowed. (\<open>make_widget\<close> converts with \<open>int(float(default))\<close>.)
\<close>

lemma spin_box_kept:
  assumes "config_contains c s" "ws (u_name u) = Some (QSpinBox n)"
  shows "set_widgets_from_ini ext c s [u] ws = ws"
  using assms by (simp add: set_widgets_from_ini_def set_widget_def try_set_cases)

lemma ex_count_kept:
  "set_widgets_from_ini ext ex_count ''Fx.fx'' [fx_uniform ''int'' ''Count'' ''3'']
     [''Count'' \<mapsto> QSpinBox 5] = [''Count'' \<mapsto> QSpinBox 5]"
  by (rule spin_box_kept) (simp_all add: config_contains_def has_section_def ex_count_def fx_uniform_def)

section \<open>The schema extractor\<close>

subsection \<open>Matches and cursors\<close>

lemma first_some_SomeD: "first_some f xs = Some y \<Longrightarrow> \<exists>x \<in> set xs. f x = Some y"
  by (induction xs) (auto split: option.splits)

lemma counts_le: "k \<in> set (counts c n g s) \<Longrightarrow> k \<le> length s"
proof -
  assume "k \<in> set (counts c n g s)"
  then have "k \<le> length (takeWhile c s)"
    by (auto simp: counts_def Let_def split: if_splits)
  also have "\<dots> \<le> length s" by (rule length_takeWhile_le)
  finally show ?thesis .
qed

lemma advance_0 [simp]: "advance 0 cur = cur"
  by (simp add: advance_def)

lemma snd_advance [simp]: "snd (advance k cur) = drop k (snd cur)"
  by (simp add: advance_def)

lemma advance_add:
  assumes "k + j \<le> length (snd cur)"
  shows "advance j (advance k cur) = advance (k + j) cur"
proof (cases "j = 0")
  case True
  then show ?thesis by simp
next
  case False
  then have "drop k (snd cur) ! (j - 1) = snd cur ! (k + j - 1)"
    using assms by (simp add: add.commute)
  with False show ?thesis by (simp add: advance_def add.commute)
qed

lemma advance_1: "snd cur = x # t \<Longrightarrow> (Some x, t) = advance 1 cur"
  by (simp add: advance_def)

lemma rx_match_advance:
  "rx_match p cur = Some (gs, cur') \<Longrightarrow> \<exists>k \<le> length (snd cur). cur' = advance k cur"
proof (induction p cur arbitrary: gs cur' rule: rx_match.induct)
  case (1 cur)
  then show ?case by (intro exI [of _ 0]) simp
next
  case (2 l r cur)
  from "2.prems" have l: "take (length l) (snd cur) = l"
    and m: "rx_match r (advance (length l) cur) = Some (gs, cur')"
    by (auto split: if_splits)
  from arg_cong [OF l, of length] have len: "length l \<le> length (snd cur)"
    by simp
  from "2.IH" [OF l m] obtain k where k: "k \<le> length (snd cur) - length l"
      "cur' = advance k (advance (length l) cur)"
    by auto
  with len have "cur' = advance (length l + k) cur"
    by (simp add: advance_add)
  with k(1) len show ?case by (intro exI [of _ "length l + k"]) simp
next
  case (3 c r cur)
  from "3.prems" obtain x t where xt: "snd cur = x # t" "c x"
      and m: "rx_match r (Some x, t) = Some (gs, cur')"
    by (auto split: list.splits if_splits)
  from "3.IH" [OF xt m] obtain k where k: "k \<le> length t" "cur' = advance k (Some x, t)"
    by auto
  have "cur' = advance (1 + k) cur"
    using k xt advance_add [of 1 k cur] advance_1 [OF xt(1)] by simp
  with k(1) xt(1) show ?case by (intro exI [of _ "1 + k"]) simp
next
  case (4 c n g r cur)
  from "4.prems" obtain j where j: "j \<in> set (counts c n g (snd cur))"
      and m: "rx_match r (advance j cur) = Some (gs, cur')"
    by (auto dest: first_some_SomeD)
  from counts_le [OF j] have jl: "j \<le> length (snd cur)" .
  from "4.IH" [OF m] obtain k where k: "k \<le> length (snd cur) - j" "cur' = advance k (advance j cur)"
    by auto
  with jl have "cur' = advance (j + k) cur" by (simp add: advance_add)
  with k(1) jl show ?case by (intro exI [of _ "j + k"]) simp
next
  case (5 c n g r cur)
  from "5.prems" obtain j gs' where j: "j \<in> set (counts c n g (snd cur))"
      and m: "rx_match r (advance j cur) = Some (gs', cur')"
    by (auto dest!: first_some_SomeD split: option.splits)
  from counts_le [OF j] have jl: "j \<le> length (snd cur)" .
  from "5.IH" [OF m] obtain k where k: "k \<le> length (snd cur) - j" "cur' = advance k (advance j cur)"
    by auto
  with jl have "cur' = advance (j + k) cur" by (simp add: advance_add)
  with k(1) jl show ?case by (intro exI [of _ "j + k"]) simp
next
  case (6 c r cur)
  show ?case
  proof (cases "case snd cur of x # t \<Rightarrow> if c x then rx_match r (Some x, t) else None | [] \<Rightarrow> None")
    case None
    with "6.prems" have "rx_match r cur = Some (gs, cur')" by simp
    from "6.IH"(2) [OF None this] show ?thesis .
  next
    case (Some m)
    with "6.prems" have mm: "m = (gs, cur')" by simp
    from Some obtain x t where xt: "snd cur = x # t" "c x"
      and m: "rx_match r (Some x, t) = Some m"
      by (auto split: list.splits if_splits)
    from "6.IH"(1) [OF xt m [unfolded mm]] obtain k where
      k: "k \<le> length t" "cur' = advance k (Some x, t)"
      by auto
    have "cur' = advance (1 + k) cur"
      using k xt advance_add [of 1 k cur] advance_1 [OF xt(1)] by simp
    with k(1) xt(1) show ?thesis by (intro exI [of _ "1 + k"]) simp
  qed
next
  case (7 b r cur)
  then show ?case by (auto split: option.splits)
next
  case (8 r cur)
  then show ?case by (auto split: if_splits)
next
  case (9 r cur)
  then show ?case by (auto split: if_splits)
next
  case (10 r cur)
  then show ?case by (auto split: if_splits)
qed

lemma cursor_at_advance:
  "i + k \<le> length t \<Longrightarrow> advance k (cursor_at t i) = cursor_at t (i + k)"
  by (simp add: cursor_at_def advance_add)

lemma snd_cursor_at [simp]: "snd (cursor_at t i) = drop i t"
  by (simp add: cursor_at_def)

lemma rx_match_groups:
  "rx_match p cur = Some (gs, cur') \<Longrightarrow> \<not> list_ex is_option p \<Longrightarrow> length gs = ngroups p"
proof (induction p cur arbitrary: gs cur' rule: rx_match.induct)
  case (4 c n g r cur)
  from "4.prems"(1) obtain j where "rx_match r (advance j cur) = Some (gs, cur')"
    by (auto dest: first_some_SomeD)
  from "4.IH" [OF this] "4.prems"(2) show ?case by (simp add: ngroups_def)
next
  case (5 c n g r cur)
  from "5.prems"(1) obtain j gs' where m: "rx_match r (advance j cur) = Some (gs', cur')"
      and g: "gs = take j (snd cur) # gs'"
    by (auto dest!: first_some_SomeD split: option.splits)
  from "5.IH" [OF m] "5.prems"(2) g show ?case by (simp add: ngroups_def)
next
  case (6 c r cur)
  then show ?case
    by (auto simp: ngroups_def split: option.splits list.splits if_splits)
qed (auto simp: ngroups_def split: option.splits list.splits if_splits)

lemma in_order_Nil: "in_order p t i []"
  by (simp add: in_order_def)

lemma in_order_mono: "in_order p t j ms \<Longrightarrow> i \<le> j \<Longrightarrow> in_order p t i ms"
  by (auto simp: in_order_def)

lemma in_order_Cons:
  assumes "in_order p t j ms" "i < j" "i \<le> length t"
    "rx_match p (cursor_at t i) = Some (gs, c)"
  shows "in_order p t i ((i, gs) # ms)"
  using assms by (auto simp: in_order_def)

lemma finditer_from_in_order:
  assumes "i \<le> length t" "cur = cursor_at t i"
  shows "in_order p t i (finditer_from p i cur)"
  using assms
proof (induction p i cur rule: finditer_from.induct)
  case (1 p i cur)
  have tail: "in_order p t (Suc i) (case snd cur of [] \<Rightarrow> [] | x # r \<Rightarrow> finditer_from p (Suc i) (Some x, r))"
    if ih: "\<And>x r. snd cur = x # r \<Longrightarrow> Suc i \<le> length t \<Longrightarrow> (Some x, r) = cursor_at t (Suc i)
              \<Longrightarrow> in_order p t (Suc i) (finditer_from p (Suc i) (Some x, r))"
  proof (cases "snd cur")
    case Nil
    then show ?thesis by (simp add: in_order_Nil)
  next
    case (Cons x r)
    with "1.prems" have lt: "Suc i \<le> length t"
      by (metis Suc_leI drop_eq_Nil2 list.distinct(1) not_le snd_cursor_at)
    have "(Some x, r) = advance 1 cur" using Cons by (rule advance_1)
    also have "\<dots> = cursor_at t (Suc i)"
      using "1.prems"(2) lt cursor_at_advance [of i 1 t] by simp
    finally have "(Some x, r) = cursor_at t (Suc i)" .
    from ih [OF Cons lt this] Cons show ?thesis by simp
  qed
  show ?case
  proof (cases "rx_match p cur")
    case None
    have "in_order p t (Suc i) (case snd cur of [] \<Rightarrow> [] | x # r \<Rightarrow> finditer_from p (Suc i) (Some x, r))"
      by (rule tail) (rule "1.IH"(1) [OF None])
    then have "in_order p t i (case snd cur of [] \<Rightarrow> [] | x # r \<Rightarrow> finditer_from p (Suc i) (Some x, r))"
      by (rule in_order_mono) simp
    with None show ?thesis by (subst finditer_from.simps) simp
  next
    case (Some m)
    obtain gs cur' where m: "m = (gs, cur')" by (cases m)
    from Some m "1.prems"(2) have here: "rx_match p (cursor_at t i) = Some (gs, cur')" by simp
    from rx_match_advance [OF Some [unfolded m]] obtain k where
      k: "k \<le> length (snd cur)" "cur' = advance k cur"
      by blast
    show ?thesis
    proof (cases "length (snd cur') < length (snd cur)")
      case True
      with k have kpos: "0 < k" by (cases k) auto
      from k "1.prems" have ik: "i + k \<le> length t" by simp
      have off: "i + (length (snd cur) - length (snd cur')) = i + k"
        using k by simp
      have c': "cur' = cursor_at t (i + k)"
        using k(2) "1.prems"(2) cursor_at_advance [OF ik] by simp
      have "in_order p t (i + k) (finditer_from p (i + k) cur')"
        using "1.IH"(2) [OF Some m [symmetric] True] ik c' unfolding off by simp
      from in_order_Cons [OF this _ "1.prems"(1) here] kpos
      have "in_order p t i ((i, gs) # finditer_from p (i + k) cur')" by simp
      with Some m True off show ?thesis by (subst finditer_from.simps) simp
    next
      case False
      have "in_order p t (Suc i) (case snd cur of [] \<Rightarrow> [] | x # r \<Rightarrow> finditer_from p (Suc i) (Some x, r))"
        by (rule tail) (rule "1.IH"(3) [OF Some m [symmetric] False])
      from in_order_Cons [OF this _ "1.prems"(1) here]
      have "in_order p t i ((i, gs) # (case snd cur of [] \<Rightarrow> [] | x # r \<Rightarrow> finditer_from p (Suc i) (Some x, r)))"
        by simp
      with Some m False show ?thesis by (subst finditer_from.simps) simp
    qed
  qed
qed

lemma finditer_in_order: "in_order p t 0 (finditer p t)"
  unfolding finditer_def by (rule finditer_from_in_order) (simp_all add: cursor_at_def)

subsection \<open>The declaration list\<close>

lemma uniform_pattern_no_option: "\<not> list_ex is_option uniform_pattern"
  by (simp add: uniform_pattern_def)

lemma uniform_pattern_ngroups: "ngroups uniform_pattern = 4"
  by (simp add: uniform_pattern_def ngroups_def)

lemma make_uniform_name:
  assumes "length gs = 4"
  shows "map u_name (make_uniform defs gs) = [gs ! 1]"
proof -
  from assms obtain a b c d where "gs = [a, b, c, d]"
    by (auto simp: length_Suc_conv numeral_eq_Suc)
  then show ?thesis by (simp add: make_uniform_def)
qed

lemma finditer_uniform_groups:
  assumes "m \<in> set (finditer uniform_pattern t)"
  shows "length (snd m) = 4"
proof -
  from finditer_in_order [of uniform_pattern t] assms obtain cur' where
    "rx_match uniform_pattern (cursor_at t (fst m)) = Some (snd m, cur')"
    by (auto simp: in_order_def)
  from rx_match_groups [OF this uniform_pattern_no_option] show ?thesis
    by (simp add: uniform_pattern_ngroups)
qed

lemma names_concat:
  assumes "\<And>m. m \<in> set ms \<Longrightarrow> length (snd m) = 4"
  shows "map u_name (concat (map (make_uniform defs) (map snd ms))) = map (\<lambda>m. snd m ! 1) ms"
  using assms by (induction ms) (simp_all add: make_uniform_name)

text \<open>
  Claim C8, as amended. The declaration list holds one declaration for every match of
  the uniform pattern, named by the match's second group, and the matches lie in the
  text in source order (strictly increasing offsets, each the match of the pattern at
  its offset). Nothing removes a repeated name.
\<close>

theorem parse_fx_uniforms_order:
  "map u_name (parse_fx_uniforms t) = map (\<lambda>m. snd m ! 1) (finditer uniform_pattern t)
   \<and> in_order uniform_pattern t 0 (finditer uniform_pattern t)"
proof -
  have "map u_name (parse_fx_uniforms t) = map (\<lambda>m. snd m ! 1) (finditer uniform_pattern t)"
    unfolding parse_fx_uniforms_def findall_def
    by (rule names_concat) (rule finditer_uniform_groups)
  then show ?thesis using finditer_in_order by blast
qed

lemma ex_dup_matches:
  "finditer uniform_pattern ex_dup =
     [(0, [''float'', ''A'', '''', ''1'']), (23, [''int'', ''A'', ''ui_min=2'', ''2''])]"
  by code_simp

lemma ex_dup_parse:
  "parse_fx_uniforms ex_dup =
     [\<lparr>u_type = ''float'', u_name = ''A'', u_meta = [], u_default = ''1''\<rparr>,
      \<lparr>u_type = ''int'', u_name = ''A'', u_meta = [(''ui_min'', ''2'')], u_default = ''2''\<rparr>]"
  by code_simp

theorem parse_fx_uniforms_order_witness:
  "map u_name (parse_fx_uniforms ex_dup) = [''A'', ''A'']
   \<and> map fst (finditer uniform_pattern ex_dup) = [0, 23]
   \<and> in_order uniform_pattern ex_dup 0 (finditer uniform_pattern ex_dup)"
  using parse_fx_uniforms_order [of ex_dup] by (simp add: ex_dup_matches)

text \<open>
  Claim C8 as stated fails: a text that declares \<open>A\<close> twice yields two declarations
  named \<open>A\<close>, the first one still in the list.
\<close>

theorem parse_fx_uniforms_keeps_duplicates:
  "parse_fx_uniforms ex_dup =
     [\<lparr>u_type = ''float'', u_name = ''A'', u_meta = [], u_default = ''1''\<rparr>,
      \<lparr>u_type = ''int'', u_name = ''A'', u_meta = [(''ui_min'', ''2'')], u_default = ''2''\<rparr>]
   \<and> \<not> distinct (map u_name (parse_fx_uniforms ex_dup))"
  by (simp add: ex_dup_parse)

subsection \<open>Resolving \<open>ui_min\<close> and \<open>ui_max\<close>\<close>

lemma resolve_cases:
  "resolve defs k md = md \<or> (\<exists>v. map_of md k = Some v \<and> v \<noteq> [] \<and> re_match number_pattern v = None
      \<and> resolve defs k md = AList.update k (resolved_value defs k v) md)"
  by (cases "map_of md k"; cases "map_of defs (the (map_of md k))")
     (simp_all add: resolve_def resolved_value_def fallback_def)

lemma resolve_other: "j \<noteq> k \<Longrightarrow> map_of (resolve defs k md) j = map_of md j"
  using resolve_cases [of defs k md] by (auto simp: AList.update_conv')

lemma resolve_same:
  "map_of (resolve defs k md) k = map_option (resolved_value defs k) (map_of md k)"
proof (cases "map_of md k")
  case None
  then show ?thesis by (simp add: resolve_def)
next
  case (Some v)
  show ?thesis
  proof (cases "v \<noteq> [] \<and> re_match number_pattern v = None")
    case True
    with Some have "resolve defs k md = AList.update k (resolved_value defs k v) md"
      by (cases "map_of defs v") (simp_all add: resolve_def resolved_value_def fallback_def)
    with Some show ?thesis by (simp add: AList.update_conv')
  next
    case False
    with Some have "resolve defs k md = md" "resolved_value defs k v = v"
      by (auto simp: resolve_def resolved_value_def)
    with Some show ?thesis by simp
  qed
qed

lemma ex_fx_parse:
  "parse_fx_uniforms ex_fx = [\<lparr>u_type = ''float'', u_name = ''Strength'',
     u_meta = [(''ui_min'', ''0.0''), (''ui_max'', ''2.0'')], u_default = ''0.5''\<rparr>]"
  by code_simp

text \<open>
  Claim C6. After the two resolution steps, \<open>ui_min\<close> and \<open>ui_max\<close> hold the resolved
  value of what the metadata block gave (absent keys stay absent), every other key is
  untouched; a non-empty value that is not a bare numeric literal resolves to its
  \<open>#define\<close> value when the table has one and to the fallback \<open>0\<close> (for \<open>ui_min\<close>) or
  \<open>100\<close> (for \<open>ui_max\<close>) otherwise. The functions are total. The example of the
  specification yields \<open>ui_max = 2.0\<close>.
\<close>

theorem resolve_ui_min_max:
  "(k = ''ui_min'' \<or> k = ''ui_max'' \<longrightarrow>
      map_of (resolve defs ''ui_max'' (resolve defs ''ui_min'' md)) k
        = map_option (resolved_value defs k) (map_of md k))
   \<and> (k \<noteq> ''ui_min'' \<and> k \<noteq> ''ui_max'' \<longrightarrow>
      map_of (resolve defs ''ui_max'' (resolve defs ''ui_min'' md)) k = map_of md k)
   \<and> (v \<noteq> [] \<and> re_match number_pattern v = None \<longrightarrow>
        resolved_value defs k v = (case map_of defs v of Some d \<Rightarrow> d | None \<Rightarrow> fallback k))
   \<and> fallback ''ui_min'' = ''0'' \<and> fallback ''ui_max'' = ''100''
   \<and> parse_fx_uniforms ex_fx = [\<lparr>u_type = ''float'', u_name = ''Strength'',
        u_meta = [(''ui_min'', ''0.0''), (''ui_max'', ''2.0'')], u_default = ''0.5''\<rparr>]"
proof -
  have a: "k = ''ui_min'' \<or> k = ''ui_max'' \<longrightarrow>
      map_of (resolve defs ''ui_max'' (resolve defs ''ui_min'' md)) k
        = map_option (resolved_value defs k) (map_of md k)"
  proof (intro impI, erule disjE)
    assume k: "k = ''ui_min''"
    have "map_of (resolve defs ''ui_max'' (resolve defs ''ui_min'' md)) ''ui_min''
        = map_of (resolve defs ''ui_min'' md) ''ui_min''"
      by (rule resolve_other) simp
    then show "map_of (resolve defs ''ui_max'' (resolve defs ''ui_min'' md)) k
        = map_option (resolved_value defs k) (map_of md k)"
      unfolding k by (simp only: resolve_same)
  next
    assume k: "k = ''ui_max''"
    have "map_of (resolve defs ''ui_min'' md) ''ui_max'' = map_of md ''ui_max''"
      by (rule resolve_other) simp
    then show "map_of (resolve defs ''ui_max'' (resolve defs ''ui_min'' md)) k
        = map_option (resolved_value defs k) (map_of md k)"
      unfolding k by (simp only: resolve_same)
  qed
  have b: "k \<noteq> ''ui_min'' \<and> k \<noteq> ''ui_max'' \<longrightarrow>
      map_of (resolve defs ''ui_max'' (resolve defs ''ui_min'' md)) k = map_of md k"
    by (simp add: resolve_other)
  have c: "v \<noteq> [] \<and> re_match number_pattern v = None \<longrightarrow>
        resolved_value defs k v = (case map_of defs v of Some d \<Rightarrow> d | None \<Rightarrow> fallback k)"
    by (simp add: resolved_value_def)
  have d: "fallback ''ui_min'' = ''0'' \<and> fallback ''ui_max'' = ''100''"
    by (simp add: fallback_def)
  show ?thesis using a b c d ex_fx_parse by blast
qed

lemma not_numbers:
  "re_match number_pattern ''MAX_STR'' = None" "re_match number_pattern ''LOW'' = None"
  "re_match number_pattern ''0.0'' = Some []"
  by code_simp+

theorem resolve_ui_min_max_witness:
  "re_match number_pattern ''MAX_STR'' = None
   \<and> map_of (resolve [(''MAX_STR'', ''2.0'')] ''ui_max'' (resolve [(''MAX_STR'', ''2.0'')] ''ui_min''
        [(''ui_min'', ''LOW''), (''ui_max'', ''MAX_STR''), (''ui_step'', ''STEP'')])) ''ui_max'' = Some ''2.0''
   \<and> re_match number_pattern ''LOW'' = None
   \<and> map_of (resolve [(''MAX_STR'', ''2.0'')] ''ui_max'' (resolve [(''MAX_STR'', ''2.0'')] ''ui_min''
        [(''ui_min'', ''LOW''), (''ui_max'', ''MAX_STR''), (''ui_step'', ''STEP'')])) ''ui_min'' = Some ''0''
   \<and> map_of (resolve [(''MAX_STR'', ''2.0'')] ''ui_max'' (resolve [(''MAX_STR'', ''2.0'')] ''ui_min''
        [(''ui_min'', ''LOW''), (''ui_max'', ''MAX_STR''), (''ui_step'', ''STEP'')])) ''ui_step'' = Some ''STEP''"
proof -
  let ?d = "[(''MAX_STR'', ''2.0'')]"
  let ?m = "[(''ui_min'', ''LOW''), (''ui_max'', ''MAX_STR''), (''ui_step'', ''STEP'')]"
  note t1 = resolve_ui_min_max [of "''ui_max''" ?d ?m "''MAX_STR''"]
  note t2 = resolve_ui_min_max [of "''ui_min''" ?d ?m "''LOW''"]
  note t3 = resolve_ui_min_max [of "''ui_step''" ?d ?m "''STEP''"]
  have a: "map_of (resolve ?d ''ui_max'' (resolve ?d ''ui_min'' ?m)) ''ui_max'' = Some ''2.0''"
    using t1 not_numbers(1) by simp
  have b: "map_of (resolve ?d ''ui_max'' (resolve ?d ''ui_min'' ?m)) ''ui_min'' = Some ''0''"
    using t2 not_numbers(2) by simp
  have c: "map_of (resolve ?d ''ui_max'' (resolve ?d ''ui_min'' ?m)) ''ui_step'' = Some ''STEP''"
    using t3 by simp
  show ?thesis using a b c not_numbers by simp
qed

section \<open>The configuration file\<close>

subsection \<open>Matching the patterns of \<open>parse_ini\<close>\<close>

lemma first_some_None_iff: "first_some f xs = None \<longleftrightarrow> (\<forall>x \<in> set xs. f x = None)"
  by (induction xs) (auto split: option.splits)

lemma first_some_append:
  "first_some f (xs @ ys) = (case first_some f xs of Some y \<Rightarrow> Some y | None \<Rightarrow> first_some f ys)"
  by (induction xs) (auto split: option.splits)

lemma first_some_skip:
  "\<forall>x \<in> set xs. f x = None \<Longrightarrow> first_some f (xs @ ys) = first_some f ys"
  using first_some_None_iff [of f xs] by (simp add: first_some_append)

lemma snd_advance': "snd (advance k cur) = drop k (snd cur)"
  by (simp add: advance_def)

lemma counts_greedy: "counts c n True s = rev [n..<Suc (length (takeWhile c s))]"
  unfolding counts_def Let_def by (simp only: if_True)

lemma counts_lazy: "counts c n False s = [n..<Suc (length (takeWhile c s))]"
  unfolding counts_def Let_def by (simp only: if_False)

lemma set_counts: "set (counts c n g s) = {k. n \<le> k \<and> k \<le> length (takeWhile c s)}"
  by (cases g) (auto simp: counts_greedy counts_lazy simp del: upt_Suc)

lemma takeWhile_holds: "k < length (takeWhile P xs) \<Longrightarrow> P (xs ! k)"
  by (metis nth_mem set_takeWhileD takeWhile_nth)

lemma take_holds:
  assumes "k \<le> length (takeWhile P xs)" "y \<in> set (take k xs)"
  shows "P y"
proof -
  from assms(2) obtain i where i: "i < length (take k xs)" "take k xs ! i = y"
    by (auto simp: in_set_conv_nth)
  then have "i < length (takeWhile P xs)" using assms(1) by simp
  then have "P (xs ! i)" by (rule takeWhile_holds)
  with i show ?thesis by simp
qed

text \<open>A literal that starts with a character outside the class stops a greedy run only at its end.\<close>

lemma lit_fails:
  assumes "k < length s" "s ! k \<noteq> x"
  shows "rx_match (Lit (x # l) # r) (advance k (p, s)) = None"
proof -
  have "take (Suc (length l)) (drop k s) \<noteq> x # l"
  proof
    assume "take (Suc (length l)) (drop k s) = x # l"
    then have "hd (take (Suc (length l)) (drop k s)) = x" by simp
    moreover have "drop k s \<noteq> []" using assms(1) by simp
    ultimately have "hd (drop k s) = x" by (cases "drop k s") auto
    with assms show False by (simp add: hd_drop_conv_nth)
  qed
  then show ?thesis by (simp add: snd_advance')
qed

lemma many_greedy_lit:
  assumes "\<not> c x"
  shows "rx_match (Many c 0 True # Lit (x # l) # r) (p, s)
     = rx_match (Lit (x # l) # r) (advance (length (takeWhile c s)) (p, s))"
proof -
  let ?m = "length (takeWhile c s)"
  let ?f = "\<lambda>k. rx_match (Lit (x # l) # r) (advance k (p, s))"
  have "\<forall>k \<in> set (rev [0..<?m]). ?f k = None"
  proof
    fix k assume "k \<in> set (rev [0..<?m])"
    then have k: "k < ?m" by simp
    then have "c (s ! k)" by (rule takeWhile_holds)
    with assms have "s ! k \<noteq> x" by auto
    moreover from k have "k < length s"
      using length_takeWhile_le [of c s] by simp
    ultimately show "?f k = None" by (rule lit_fails [rotated])
  qed
  then have "first_some ?f (rev [0..<?m]) = None" by (simp add: first_some_None_iff)
  then have "first_some ?f (?m # rev [0..<?m]) = ?f ?m"
    by (simp split: option.splits)
  then show ?thesis by (simp add: counts_greedy)
qed

lemma lit_char_iff:
  "rx_match [Lit [x]] (advance k (p, s)) \<noteq> None \<longleftrightarrow> k < length s \<and> s ! k = x"
proof (cases "k < length s")
  case True
  then have "take (Suc 0) (drop k s) = [s ! k]"
    by (simp flip: Cons_nth_drop_Suc)
  with True show ?thesis by (auto simp: snd_advance')
next
  case False
  then show ?thesis by (simp add: snd_advance')
qed

lemma many_lazy_unfold:
  "rx_match [Many c 0 False, Lit [x]] (p, s)
     = first_some (\<lambda>k. rx_match [Lit [x]] (advance k (p, s))) (counts c 0 False s)"
  by (simp only: rx_match.simps snd_conv)

lemma many_lazy_lit_iff:
  "rx_match [Many c 0 False, Lit [x]] (p, s) \<noteq> None
     \<longleftrightarrow> (\<exists>h r. s = h @ x # r \<and> (\<forall>y \<in> set h. c y))"
proof
  assume "rx_match [Many c 0 False, Lit [x]] (p, s) \<noteq> None"
  then obtain k where k: "k \<in> set (counts c 0 False s)"
      and m: "rx_match [Lit [x]] (advance k (p, s)) \<noteq> None"
    unfolding many_lazy_unfold first_some_None_iff by blast
  from m [unfolded lit_char_iff] have kl: "k < length s" "s ! k = x" by blast+
  from k have "k \<le> length (takeWhile c s)" by (simp add: set_counts)
  then have "\<forall>y \<in> set (take k s). c y"
    by (blast intro: take_holds)
  moreover have "s = take k s @ x # drop (Suc k) s"
    using kl by (metis id_take_nth_drop)
  ultimately show "\<exists>h r. s = h @ x # r \<and> (\<forall>y \<in> set h. c y)" by blast
next
  assume "\<exists>h r. s = h @ x # r \<and> (\<forall>y \<in> set h. c y)"
  then obtain h r where s: "s = h @ x # r" and h: "\<forall>y \<in> set h. c y" by blast
  have "length h \<le> length (takeWhile c s)"
    using h s by (simp add: takeWhile_append2)
  then have "length h \<in> set (counts c 0 False s)" by (simp add: set_counts)
  moreover have "rx_match [Lit [x]] (advance (length h) (p, s)) \<noteq> None"
    unfolding lit_char_iff using s by simp
  ultimately have "\<not> (\<forall>k \<in> set (counts c 0 False s).
      rx_match [Lit [x]] (advance k (p, s)) = None)"
    by (intro notI) (drule bspec, assumption, simp)
  then show "rx_match [Many c 0 False, Lit [x]] (p, s) \<noteq> None"
    by (simp only: many_lazy_unfold first_some_None_iff not_False_eq_True)
qed

lemma not_space_bracket: "\<not> isspace (CHR ''['')"
  by (simp add: isspace_def)

lemma lit_char_step:
  "rx_match (Lit [x] # r) (advance k (p, s))
     = (if k < length s \<and> s ! k = x then rx_match r (advance (Suc k) (p, s)) else None)"
proof (cases "k < length s")
  case True
  then have 1: "take (Suc 0) (drop k s) = [s ! k]"
    by (simp flip: Cons_nth_drop_Suc)
  have "advance (Suc 0) (advance k (p, s)) = advance (k + Suc 0) (p, s)"
    using True by (intro advance_add) simp
  with 1 True show ?thesis by (auto simp: snd_advance')
next
  case False
  then show ?thesis by (simp add: snd_advance')
qed

lemma starts_with_header_match:
  "re_match starts_with_header t \<noteq> None \<longleftrightarrow>
     (let m = length (takeWhile isspace t)
      in m < length t \<and> t ! m = CHR ''[''
         \<and> (\<exists>h r. drop (Suc m) t = h @ CHR '']'' # r \<and> (\<forall>y \<in> set h. isdot y)))"
proof -
  let ?m = "length (takeWhile isspace t)"
  let ?r = "[Many isdot 0 False, Lit '']'']"
  obtain q where q: "advance (Suc ?m) (None, t) = (q, drop (Suc ?m) t)"
    by (metis prod.collapse snd_advance' snd_conv)
  have "rx_match starts_with_header (None, t)
      = rx_match (Lit ''['' # ?r) (advance ?m (None, t))"
    unfolding starts_with_header_def by (rule many_greedy_lit) (rule not_space_bracket)
  also have "\<dots> = (if ?m < length t \<and> t ! ?m = CHR ''[''
       then rx_match ?r (q, drop (Suc ?m) t) else None)"
    by (simp only: lit_char_step q)
  finally have eq0: "rx_match starts_with_header (None, t) =
      (if ?m < length t \<and> t ! ?m = CHR ''['' then rx_match ?r (q, drop (Suc ?m) t) else None)" .
  define A where "A \<longleftrightarrow> ?m < length t \<and> t ! ?m = CHR ''[''"
  define X where "X = rx_match ?r (q, drop (Suc ?m) t)"
  from eq0 have eq: "rx_match starts_with_header (None, t) = (if A then X else None)"
    by (simp only: A_def X_def)
  have "re_match starts_with_header t \<noteq> None \<longleftrightarrow> A \<and> X \<noteq> None"
    unfolding re_match_def eq by (cases A) simp_all
  also have "X \<noteq> None \<longleftrightarrow>
      (\<exists>h r. drop (Suc ?m) t = h @ CHR '']'' # r \<and> (\<forall>y \<in> set h. isdot y))"
    unfolding X_def by (rule many_lazy_lit_iff)
  finally show ?thesis unfolding A_def Let_def by blast
qed

lemma needs_global_iff: "needs_global t \<longleftrightarrow> \<not> begins_with_header t"
proof -
  let ?m = "length (takeWhile isspace t)"
  have "begins_with_header t \<longleftrightarrow>
      (?m < length t \<and> t ! ?m = CHR ''[''
         \<and> (\<exists>h r. drop (Suc ?m) t = h @ CHR '']'' # r \<and> (\<forall>y \<in> set h. isdot y)))"
  proof
    assume "begins_with_header t"
    then obtain ws h r where t: "t = ws @ ''['' @ h @ '']'' @ r"
        and ws: "\<forall>c \<in> set ws. isspace c" and h: "CHR 0x0A \<notin> set h"
      unfolding begins_with_header_def by blast
    have tw: "takeWhile isspace t = ws"
      using ws not_space_bracket by (simp add: t takeWhile_append2)
    have "\<forall>y \<in> set h. isdot y" using h by (auto simp: isdot_def)
    then show "?m < length t \<and> t ! ?m = CHR ''[''
         \<and> (\<exists>h r. drop (Suc ?m) t = h @ CHR '']'' # r \<and> (\<forall>y \<in> set h. isdot y))"
      unfolding tw by (auto simp: t nth_append)
  next
    assume a: "?m < length t \<and> t ! ?m = CHR ''[''
         \<and> (\<exists>h r. drop (Suc ?m) t = h @ CHR '']'' # r \<and> (\<forall>y \<in> set h. isdot y))"
    then obtain h r where hr: "drop (Suc ?m) t = h @ CHR '']'' # r" "\<forall>y \<in> set h. isdot y"
      by blast
    from a have "t = take ?m t @ CHR ''['' # drop (Suc ?m) t"
      by (metis id_take_nth_drop)
    then have "t = take ?m t @ ''['' @ h @ '']'' @ r" using hr(1) by simp
    moreover have "\<forall>c \<in> set (take ?m t). isspace c"
      by (blast intro: take_holds)
    moreover have "CHR 0x0A \<notin> set h" using hr(2) by (auto simp: isdot_def)
    ultimately show "begins_with_header t" unfolding begins_with_header_def by blast
  qed
  moreover note starts_with_header_match [of t, unfolded Let_def]
  ultimately have "begins_with_header t \<longleftrightarrow> re_match starts_with_header t \<noteq> None"
    by (rule trans [OF _ sym])
  then show ?thesis unfolding needs_global_def by blast
qed

lemma global_header_begins: "begins_with_header (global_header @ t)"
  unfolding begins_with_header_def
  by (rule exI [of _ "[]"], rule exI [of _ "''GLOBAL''"], rule exI [of _ "CHR 0x0A # t"])
     (simp add: global_header_def)

lemma global_header_not_needed: "\<not> needs_global (global_header @ t)"
  by (simp add: needs_global_iff global_header_begins)

subsection \<open>The written text\<close>

lemma write_sections_blocks:
  "write_sections c snm knm w ss
     = join_blocks w (map (section_block c snm knm) (filter (\<lambda>s. s \<noteq> ''GLOBAL'') ss))"
  by (induction ss arbitrary: w) (simp_all add: section_block_def)

lemma contains_GLOBAL: "config_contains c ''GLOBAL'' = has_section c ''GLOBAL''"
  by (simp add: config_contains_def default_section_def)

lemma save_ini_spec: "save_ini c snm knm = save_spec c snm knm"
  by (simp add: save_ini_def save_spec_def write_sections_blocks contains_GLOBAL other_sections_def)

subsection \<open>Sections only accumulate while reading\<close>

lemma readlines_line:
  "CHR 0x0A \<notin> set l \<Longrightarrow> readlines (l @ CHR 0x0A # t) = (l @ [CHR 0x0A]) # readlines t"
  by (induction l) auto

lemma read_header_mono:
  "read_header st h = Inr st' \<Longrightarrow> map_of (r_sections st) g \<noteq> None
     \<Longrightarrow> map_of (r_sections st') g \<noteq> None"
  by (auto simp: read_header_def split: if_splits)

lemma set_cursect_mono:
  "map_of (r_sections st) g \<noteq> None \<Longrightarrow> map_of (r_sections (set_cursect st d)) g \<noteq> None"
  by (auto simp: set_cursect_def AList.update_conv' split: option.splits)

lemma append_value_mono:
  "map_of (r_sections st) g \<noteq> None \<Longrightarrow> map_of (r_sections (append_value st v)) g \<noteq> None"
  using set_cursect_mono [of st g] by (simp add: append_value_def split: option.splits)

lemma read_option_mono:
  assumes "read_option st s k v = Inr st'" "map_of (r_sections st) g \<noteq> None"
  shows "map_of (r_sections st') g \<noteq> None"
proof -
  let ?st1 = "if k = [] then st\<lparr>e := True\<rparr> else st"
  have 1: "map_of (r_sections ?st1) g \<noteq> None" using assms(2) by simp
  from assms(1) have "st' = (set_cursect ?st1 (AList.update (rstrip k) [strip v] (cursect ?st1)))
       \<lparr>elements_added := Inr (s, rstrip k) # elements_added ?st1, optname := Some (rstrip k)\<rparr>"
    by (auto simp: read_option_def Let_def split: if_splits)
  then have "r_sections st' = r_sections (set_cursect ?st1 (AList.update (rstrip k) [strip v] (cursect ?st1)))"
    by simp
  with set_cursect_mono [OF 1] show ?thesis by simp
qed

lemma read_pair_cases:
  assumes "read_pair st s m = Inr st'"
  obtains k v where "read_option st s k v = Inr st'" | "st' = st\<lparr>e := True\<rparr>"
  using assms by (induction st s m rule: read_pair.induct) auto

lemma read_entry_cases:
  assumes "read_entry st val = Inr st'"
  obtains h where "read_header st h = Inr st'"
    | s k v where "read_option st s k v = Inr st'"
    | "st' = st\<lparr>e := True\<rparr>"
proof (cases "re_match SECTCRE val")
  case (Some gs)
  with assms have "read_header st (concat gs) = Inr st'" by (simp add: read_entry_def)
  then show ?thesis by (rule that(1))
next
  case None
  with assms have c: "(case sectname st of None \<Rightarrow> Inl MissingSectionHeaderError
      | Some s \<Rightarrow> read_pair st s (re_match OPTCRE val)) = Inr st'"
    by (simp only: read_entry_def option.case)
  show ?thesis
  proof (cases "sectname st")
    case None
    with c show ?thesis by (simp only: option.case) simp
  next
    case (Some s)
    with c have "read_pair st s (re_match OPTCRE val) = Inr st'" by (simp only: option.case)
    then show ?thesis
    proof (cases rule: read_pair_cases)
      case (1 k v)
      then show ?thesis by (rule that(2))
    next
      case 2
      then show ?thesis by (rule that(3))
    qed
  qed
qed

lemma read_line_cases:
  assumes "read_line st l = Inr st'"
  obtains "st' = read_blank st (is_comment l)"
    | v where "st' = append_value st v"
    | val where "read_entry (st\<lparr>indent_level := length (takeWhile isspace l)\<rparr>) val = Inr st'"
proof -
  define val where "val = (if is_comment l then [] else strip l)"
  define cont where "cont \<longleftrightarrow> sectname st \<noteq> None \<and> opt_set st
     \<and> length (takeWhile isspace l) > indent_level st"
  have rl: "read_line st l = (if val = [] then Inr (read_blank st (is_comment l))
      else if cont then Inr (append_value st val)
      else read_entry (st\<lparr>indent_level := length (takeWhile isspace l)\<rparr>) val)"
    unfolding read_line_def Let_def val_def cont_def ..
  show ?thesis
  proof (cases "val = []")
    case True
    with assms rl have "st' = read_blank st (is_comment l)" by simp
    then show ?thesis by (rule that(1))
  next
    case False
    show ?thesis
    proof (cases cont)
      case True
      with assms rl False have "st' = append_value st val" by simp
      then show ?thesis by (rule that(2))
    next
      case c: False
      with assms rl False
      have "read_entry (st\<lparr>indent_level := length (takeWhile isspace l)\<rparr>) val = Inr st'"
        by simp
      then show ?thesis by (rule that(3))
    qed
  qed
qed

lemma read_blank_mono:
  "map_of (r_sections st) g \<noteq> None \<Longrightarrow> map_of (r_sections (read_blank st b)) g \<noteq> None"
  using append_value_mono [of st g "[]"] by (simp add: read_blank_def)

lemma read_entry_mono:
  assumes "read_entry st val = Inr st'" "map_of (r_sections st) g \<noteq> None"
  shows "map_of (r_sections st') g \<noteq> None"
  using assms(1)
proof (cases rule: read_entry_cases)
  case (1 h)
  from read_header_mono [OF this assms(2)] show ?thesis .
next
  case (2 s k v)
  from read_option_mono [OF this assms(2)] show ?thesis .
next
  case 3
  with assms(2) show ?thesis by simp
qed

lemma read_line_mono:
  assumes "read_line st l = Inr st'" "map_of (r_sections st) g \<noteq> None"
  shows "map_of (r_sections st') g \<noteq> None"
  using assms(1)
proof (cases rule: read_line_cases)
  case 1
  with read_blank_mono [OF assms(2)] show ?thesis by simp
next
  case (2 v)
  with append_value_mono [OF assms(2)] show ?thesis by simp
next
  case (3 val)
  show ?thesis by (rule read_entry_mono [OF 3]) (simp add: assms(2))
qed

lemma read_lines_mono:
  "read_lines st ls = Inr st' \<Longrightarrow> map_of (r_sections st) g \<noteq> None
     \<Longrightarrow> map_of (r_sections st') g \<noteq> None"
proof (induction ls arbitrary: st)
  case Nil
  then show ?case by simp
next
  case (Cons l ls)
  from Cons.prems(1) obtain st1 where 1: "read_line st l = Inr st1" "read_lines st1 ls = Inr st'"
    by (auto split: sum.splits)
  from Cons.IH [OF 1(2) read_line_mono [OF 1(1) Cons.prems(2)]] show ?case .
qed

lemma read_global_header:
  "read_line new_reader global_header = Inr (new_reader\<lparr>r_sections := [(''GLOBAL'', [])],
     sectname := Some ''GLOBAL'', elements_added := [Inl ''GLOBAL'']\<rparr>)"
  by code_simp

lemma has_section_read:
  assumes "read_string content = Inr c" "read_lines new_reader (readlines content) = Inr st"
  shows "has_section c g \<longleftrightarrow> map_of (r_sections st) g \<noteq> None"
proof -
  from assms have "sections c = map (\<lambda>sd. (fst sd, join_multiline_values (snd sd))) (r_sections st)"
    by (auto simp: read_string_def split: if_splits)
  then have "map fst (sections c) = map fst (r_sections st)" by (simp add: comp_def)
  then have "fst ` set (sections c) = fst ` set (r_sections st)"
    by (metis set_map)
  then show ?thesis by (simp add: has_section_def map_of_eq_None_iff)
qed

lemma read_string_global:
  assumes "read_string (global_header @ t) = Inr c"
  shows "has_section c ''GLOBAL''"
proof -
  have rl: "readlines (global_header @ t) = global_header # readlines t"
    using readlines_line [of "''[GLOBAL]''" t] by (simp add: global_header_def)
  from assms obtain st where st: "read_lines new_reader (readlines (global_header @ t)) = Inr st"
    by (auto simp: read_string_def split: sum.splits)
  then have "read_lines (new_reader\<lparr>r_sections := [(''GLOBAL'', [])],
     sectname := Some ''GLOBAL'', elements_added := [Inl ''GLOBAL'']\<rparr>) (readlines t) = Inr st"
    by (simp add: rl read_global_header)
  from read_lines_mono [OF this, of "''GLOBAL''"] have "map_of (r_sections st) ''GLOBAL'' \<noteq> None"
    by simp
  with has_section_read [OF assms st] show ?thesis by simp
qed

lemma parsed_content_global:
  "needs_global t \<Longrightarrow> parsed_content (global_header @ t) = parsed_content t"
  by (simp add: parsed_content_def global_header_not_needed)

lemma save_ini_global:
  "has_section c ''GLOBAL'' \<Longrightarrow>
     save_ini c snm knm = item_lines c knm ''global'' ''GLOBAL''
       @ join_blocks True (map (section_block c snm knm) (other_sections c))"
  by (simp add: save_ini_spec save_spec_def)

subsection \<open>Errors of \<open>parse_ini\<close>\<close>

lemma SECTCRE_groups:
  assumes "re_match SECTCRE val = Some gs"
  shows "gs = [concat gs]"
proof -
  from assms obtain cur' where "rx_match SECTCRE (None, val) = Some (gs, cur')"
    by (auto simp: re_match_def)
  from rx_match_groups [OF this] have "length gs = 1"
    by (simp add: SECTCRE_def ngroups_def)
  then obtain g where "gs = [g]" by (cases gs) auto
  then show ?thesis by simp
qed

lemma elements_added_set_cursect [simp]:
  "elements_added (set_cursect st d) = elements_added st"
  by (simp add: set_cursect_def split: option.splits)

lemma elements_added_append_value [simp]:
  "elements_added (append_value st v) = elements_added st"
  by (simp add: append_value_def split: option.splits)

lemma elements_added_read_blank [simp]:
  "elements_added (read_blank st b) = elements_added st"
  by (simp add: read_blank_def)

lemma read_header_dup:
  "read_header st g = Inl (DuplicateSectionError h) \<Longrightarrow> g = h \<and> Inl h \<in> set (elements_added st)"
  by (auto simp: read_header_def split: if_splits)

lemma read_header_added:
  "read_header st g = Inr st' \<Longrightarrow> Inl h \<in> set (elements_added st')
     \<Longrightarrow> Inl h \<in> set (elements_added st) \<or> h = g"
  by (auto simp: read_header_def split: if_splits)

lemma read_option_dup: "read_option st s k v \<noteq> Inl (DuplicateSectionError h)"
  by (simp add: read_option_def Let_def)

lemma read_option_added:
  "read_option st s k v = Inr st' \<Longrightarrow> Inl h \<in> set (elements_added st')
     \<Longrightarrow> Inl h \<in> set (elements_added st)"
  by (auto simp: read_option_def Let_def split: if_splits)

lemma read_pair_dup: "read_pair st s m \<noteq> Inl (DuplicateSectionError h)"
  by (induction st s m rule: read_pair.induct) (simp_all add: read_option_dup)

lemma read_pair_added:
  "read_pair st s m = Inr st' \<Longrightarrow> Inl h \<in> set (elements_added st')
     \<Longrightarrow> Inl h \<in> set (elements_added st)"
  by (erule read_pair_cases) (auto dest: read_option_added)

lemma read_entry_dup:
  assumes "read_entry st val = Inl (DuplicateSectionError h)"
  shows "re_match SECTCRE val = Some [h] \<and> Inl h \<in> set (elements_added st)"
proof (cases "re_match SECTCRE val")
  case None
  with assms show ?thesis
    by (cases "sectname st") (simp_all add: read_entry_def read_pair_dup)
next
  case (Some gs)
  with assms have "read_header st (concat gs) = Inl (DuplicateSectionError h)"
    by (simp add: read_entry_def)
  from read_header_dup [OF this] SECTCRE_groups [OF Some] Some show ?thesis by simp
qed

lemma read_entry_added:
  assumes "read_entry st val = Inr st'" "Inl h \<in> set (elements_added st')"
  shows "Inl h \<in> set (elements_added st) \<or> re_match SECTCRE val = Some [h]"
proof (cases "re_match SECTCRE val")
  case None
  with assms(1) obtain s where "read_pair st s (re_match OPTCRE val) = Inr st'"
    by (cases "sectname st") (simp_all add: read_entry_def)
  from read_pair_added [OF this assms(2)] show ?thesis by simp
next
  case (Some gs)
  with assms have "read_header st (concat gs) = Inr st'"
    by (simp add: read_entry_def)
  from read_header_added [OF this assms(2)] SECTCRE_groups [OF Some] Some show ?thesis by auto
qed

lemma read_line_unfold:
  "read_line st l =
     (if is_comment l \<or> strip l = [] then Inr (read_blank st (is_comment l))
      else if continuation st l then Inr (append_value st (strip l))
      else read_entry (st\<lparr>indent_level := length (takeWhile isspace l)\<rparr>) (strip l))"
proof (cases "is_comment l")
  case True
  then show ?thesis by (simp add: read_line_def)
next
  case False
  then have "read_line st l =
     (if strip l = [] then Inr (read_blank st (is_comment l))
      else if continuation st l then Inr (append_value st (strip l))
      else read_entry (st\<lparr>indent_level := length (takeWhile isspace l)\<rparr>) (strip l))"
    unfolding read_line_def Let_def continuation_def by (simp only: if_False)
  with False show ?thesis by (simp only: simp_thms)
qed

lemma read_line_dup:
  assumes "read_line st l = Inl (DuplicateSectionError h)"
  shows "is_header l h \<and> Inl h \<in> set (elements_added st)"
proof -
  from assms have nb: "\<not> (is_comment l \<or> strip l = [])"
    and "read_entry (st\<lparr>indent_level := length (takeWhile isspace l)\<rparr>) (strip l)
           = Inl (DuplicateSectionError h)"
    unfolding read_line_unfold by (auto split: if_splits)
  from read_entry_dup [OF this(2)] nb show ?thesis by (simp add: is_header_def)
qed

lemma read_line_added:
  assumes "read_line st l = Inr st'" "Inl h \<in> set (elements_added st')"
  shows "Inl h \<in> set (elements_added st) \<or> is_header l h"
proof (cases "is_comment l \<or> strip l = []")
  case True
  with assms show ?thesis unfolding read_line_unfold by auto
next
  case False
  show ?thesis
  proof (cases "continuation st l")
    case True
    with False assms show ?thesis unfolding read_line_unfold by auto
  next
    case c: False
    with False assms(1)
    have "read_entry (st\<lparr>indent_level := length (takeWhile isspace l)\<rparr>) (strip l) = Inr st'"
      unfolding read_line_unfold by simp
    from read_entry_added [OF this assms(2)] False show ?thesis by (simp add: is_header_def)
  qed
qed

lemma read_lines_dup:
  assumes "read_lines st ls = Inl (DuplicateSectionError h)"
    "\<And>g. Inl g \<in> set (elements_added st) \<Longrightarrow> \<exists>l \<in> set seen. is_header l g"
  shows "\<exists>a l1 b l2 c. seen @ ls = a @ l1 # b @ l2 # c \<and> is_header l1 h \<and> is_header l2 h"
  using assms
proof (induction ls arbitrary: st seen)
  case Nil
  then show ?case by simp
next
  case (Cons l ls)
  show ?case
  proof (cases "read_line st l")
    case (Inl err)
    with Cons.prems(1) have "read_line st l = Inl (DuplicateSectionError h)" by simp
    from read_line_dup [OF this] have l: "is_header l h" "Inl h \<in> set (elements_added st)"
      by simp_all
    from Cons.prems(2) [OF l(2)] obtain l1 where "l1 \<in> set seen" "is_header l1 h" by blast
    then obtain a b where "seen = a @ l1 # b" by (auto dest: split_list)
    then have "seen @ l # ls = a @ l1 # b @ l # ls" by simp
    with l(1) \<open>is_header l1 h\<close> show ?thesis by blast
  next
    case (Inr st')
    with Cons.prems(1) have r: "read_lines st' ls = Inl (DuplicateSectionError h)" by simp
    have "\<exists>a l1 b l2 c. (seen @ [l]) @ ls = a @ l1 # b @ l2 # c \<and> is_header l1 h \<and> is_header l2 h"
    proof (rule Cons.IH [OF r])
      fix g assume "Inl g \<in> set (elements_added st')"
      from read_line_added [OF Inr this] show "\<exists>l \<in> set (seen @ [l]). is_header l g"
        using Cons.prems(2) by auto
    qed
    then show ?thesis by simp
  qed
qed

lemma read_string_dup:
  assumes "read_string s = Inl (DuplicateSectionError h)"
  shows "\<exists>a l1 b l2 c. readlines s = a @ l1 # b @ l2 # c \<and> is_header l1 h \<and> is_header l2 h"
proof -
  from assms have "read_lines new_reader (readlines s) = Inl (DuplicateSectionError h)"
    by (auto simp: read_string_def split: sum.splits if_splits)
  from read_lines_dup [OF this, of "[]"] show ?thesis by (simp add: new_reader_def)
qed

lemma parse_ini_cases:
  "parse_ini t =
     (case read_string (parsed_content t) of
        Inl err \<Rightarrow> (case err of
            DuplicateSectionError h \<Rightarrow> Inr (None, fst (name_maps t), snd (name_maps t), Some err)
          | _ \<Rightarrow> Inl err)
      | Inr c \<Rightarrow> Inr (Some c, fst (name_maps t), snd (name_maps t), None))"
  by (simp add: parse_ini_def Let_def split: sum.splits py_error.splits)

lemma global_header_lines: "readlines (global_header @ t) = global_header # readlines t"
  using readlines_line [of "''[GLOBAL]''" t] by (simp add: global_header_def)

lemma global_header_match: "re_match SECTCRE (strip global_header) = Some [''GLOBAL'']"
  by code_simp

lemma global_header_name: "is_header global_header h \<Longrightarrow> h = ''GLOBAL''"
  by (simp add: is_header_def global_header_match)

lemma parsed_content_dup:
  assumes "read_string (parsed_content t) = Inl (DuplicateSectionError h)"
  shows "(\<exists>a l1 b l2 c. readlines t = a @ l1 # b @ l2 # c \<and> is_header l1 h \<and> is_header l2 h)
     \<or> (needs_global t \<and> h = ''GLOBAL'' \<and> (\<exists>a l b. readlines t = a @ l # b \<and> is_header l ''GLOBAL''))"
proof (cases "needs_global t")
  case False
  with read_string_dup [OF assms] show ?thesis by (simp add: parsed_content_def)
next
  case True
  with read_string_dup [OF assms] obtain a l1 b l2 c where
    s: "global_header # readlines t = a @ l1 # b @ l2 # c" and h: "is_header l1 h" "is_header l2 h"
    by (auto simp: parsed_content_def global_header_lines)
  show ?thesis
  proof (cases a)
    case Nil
    with s have "l1 = global_header" "readlines t = b @ l2 # c" by simp_all
    with h global_header_name True show ?thesis by blast
  next
    case (Cons x a')
    with s have "readlines t = a' @ l1 # b @ l2 # c" by simp
    with h show ?thesis by blast
  qed
qed

text \<open>
  Claim C2, as amended. \<open>parse_ini\<close> returns no store exactly when the structured
  parser raises \<open>DuplicateSectionError\<close>; it then returns that error and the two casing
  maps. This happens only if two lines of the text are headers of the same section, or
  if the text does not begin with a section header, so that \<open>[GLOBAL]\<close> is put in front
  of it, and one of its lines is a header \<open>[GLOBAL]\<close>. When the parser accepts the text,
  the store and the maps are returned with no error. Every other exception of the parser
  leaves \<open>parse_ini\<close> uncaught.
\<close>

theorem parse_ini_errors:
  "(\<forall>snm knm err. parse_ini t = Inr (None, snm, knm, err) \<longrightarrow>
       (\<exists>h. err = Some (DuplicateSectionError h)
            \<and> read_string (parsed_content t) = Inl (DuplicateSectionError h)
            \<and> ((\<exists>a l1 b l2 c. readlines t = a @ l1 # b @ l2 # c \<and> is_header l1 h \<and> is_header l2 h)
               \<or> (needs_global t \<and> h = ''GLOBAL''
                   \<and> (\<exists>a l b. readlines t = a @ l # b \<and> is_header l ''GLOBAL''))))
       \<and> (snm, knm) = name_maps t)
   \<and> (\<forall>c snm knm err. parse_ini t = Inr (Some c, snm, knm, err) \<longrightarrow>
       err = None \<and> read_string (parsed_content t) = Inr c \<and> (snm, knm) = name_maps t)
   \<and> (\<forall>x. parse_ini t = Inl x \<longrightarrow>
       read_string (parsed_content t) = Inl x \<and> (\<forall>h. x \<noteq> DuplicateSectionError h))"
proof -
  have a0: "\<forall>snm knm err. parse_ini t = Inr (None, snm, knm, err) \<longrightarrow>
       (\<exists>h. err = Some (DuplicateSectionError h)
            \<and> read_string (parsed_content t) = Inl (DuplicateSectionError h))
       \<and> (snm, knm) = name_maps t"
    unfolding parse_ini_cases by (auto split: sum.splits py_error.splits)
  have a: "\<forall>snm knm err. parse_ini t = Inr (None, snm, knm, err) \<longrightarrow>
       (\<exists>h. err = Some (DuplicateSectionError h)
            \<and> read_string (parsed_content t) = Inl (DuplicateSectionError h)
            \<and> ((\<exists>a l1 b l2 c. readlines t = a @ l1 # b @ l2 # c \<and> is_header l1 h \<and> is_header l2 h)
               \<or> (needs_global t \<and> h = ''GLOBAL''
                   \<and> (\<exists>a l b. readlines t = a @ l # b \<and> is_header l ''GLOBAL''))))
       \<and> (snm, knm) = name_maps t"
  proof (intro allI impI)
    fix snm knm err assume p: "parse_ini t = Inr (None, snm, knm, err)"
    with a0 obtain h where h: "err = Some (DuplicateSectionError h)"
      "read_string (parsed_content t) = Inl (DuplicateSectionError h)"
      and m: "(snm, knm) = name_maps t" by blast
    from parsed_content_dup [OF h(2)] h m
    show "(\<exists>h. err = Some (DuplicateSectionError h)
            \<and> read_string (parsed_content t) = Inl (DuplicateSectionError h)
            \<and> ((\<exists>a l1 b l2 c. readlines t = a @ l1 # b @ l2 # c \<and> is_header l1 h \<and> is_header l2 h)
               \<or> (needs_global t \<and> h = ''GLOBAL''
                   \<and> (\<exists>a l b. readlines t = a @ l # b \<and> is_header l ''GLOBAL''))))
       \<and> (snm, knm) = name_maps t"
      by (intro conjI exI [of _ h]) simp_all
  qed
  have b: "\<forall>c snm knm err. parse_ini t = Inr (Some c, snm, knm, err) \<longrightarrow>
       err = None \<and> read_string (parsed_content t) = Inr c \<and> (snm, knm) = name_maps t"
    unfolding parse_ini_cases by (auto split: sum.splits py_error.splits)
  have c: "\<forall>x. parse_ini t = Inl x \<longrightarrow>
       read_string (parsed_content t) = Inl x \<and> (\<forall>h. x \<noteq> DuplicateSectionError h)"
    unfolding parse_ini_cases by (auto split: sum.splits py_error.splits)
  show ?thesis by (intro conjI) (fact a b c)+
qed

lemma ex_twice_parse:
  "parse_ini ex_twice = Inr (None, [(''a'', ''A'')], [(''a'', [(''y'', ''y'')])],
     Some (DuplicateSectionError ''A''))"
  by code_simp

lemma ex_twice_lines:
  "readlines ex_twice = [''[A]'' @ [CHR 0x0A], ''x=1'' @ [CHR 0x0A], ''[A]'' @ [CHR 0x0A],
     ''y=2'' @ [CHR 0x0A]]"
  by code_simp

lemma ex_twice_header: "is_header (''[A]'' @ [CHR 0x0A]) ''A''"
  by code_simp

lemma ex_twice_plain: "\<not> needs_global ex_twice"
  by code_simp

lemma ex_keys_global_parse:
  "parse_ini ex_keys_global = Inr (None, [(''global'', ''GLOBAL'')],
     [(''global'', [(''a'', ''a''), (''b'', ''b'')])], Some (DuplicateSectionError ''GLOBAL''))"
  by code_simp

lemma ex_keys_global_lines:
  "readlines ex_keys_global = [''a=1'' @ [CHR 0x0A], ''[GLOBAL]'' @ [CHR 0x0A], ''b=2'' @ [CHR 0x0A]]"
  by code_simp

lemma ex_keys_global_headers:
  "\<not> is_header (''a=1'' @ [CHR 0x0A]) ''GLOBAL''" "is_header (''[GLOBAL]'' @ [CHR 0x0A]) ''GLOBAL''"
  "\<not> is_header (''b=2'' @ [CHR 0x0A]) ''GLOBAL''" "takeWhile isspace (''[GLOBAL]'' @ [CHR 0x0A]) = []"
  "needs_global ex_keys_global"
  by code_simp+

theorem parse_ini_errors_witness:
  "parse_ini ex_twice = Inr (None, [(''a'', ''A'')], [(''a'', [(''y'', ''y'')])],
     Some (DuplicateSectionError ''A''))
   \<and> read_string (parsed_content ex_twice) = Inl (DuplicateSectionError ''A'')
   \<and> name_maps ex_twice = ([(''a'', ''A'')], [(''a'', [(''y'', ''y'')])])
   \<and> \<not> needs_global ex_twice
   \<and> readlines ex_twice = [] @ (''[A]'' @ [CHR 0x0A]) # [''x=1'' @ [CHR 0x0A]]
        @ (''[A]'' @ [CHR 0x0A]) # [''y=2'' @ [CHR 0x0A]]
   \<and> is_header (''[A]'' @ [CHR 0x0A]) ''A''
   \<and> parse_ini ex_keys_global = Inr (None, [(''global'', ''GLOBAL'')],
        [(''global'', [(''a'', ''a''), (''b'', ''b'')])], Some (DuplicateSectionError ''GLOBAL''))
   \<and> read_string (parsed_content ex_keys_global) = Inl (DuplicateSectionError ''GLOBAL'')
   \<and> needs_global ex_keys_global
   \<and> readlines ex_keys_global = [''a=1'' @ [CHR 0x0A]] @ (''[GLOBAL]'' @ [CHR 0x0A]) # [''b=2'' @ [CHR 0x0A]]
   \<and> is_header (''[GLOBAL]'' @ [CHR 0x0A]) ''GLOBAL''"
proof -
  note t = parse_ini_errors [of ex_twice]
  from t ex_twice_parse
  have "(\<exists>h. Some (DuplicateSectionError ''A'') = Some (DuplicateSectionError h)
            \<and> read_string (parsed_content ex_twice) = Inl (DuplicateSectionError h)
            \<and> ((\<exists>a l1 b l2 c. readlines ex_twice = a @ l1 # b @ l2 # c \<and> is_header l1 h \<and> is_header l2 h)
               \<or> (needs_global ex_twice \<and> h = ''GLOBAL''
                   \<and> (\<exists>a l b. readlines ex_twice = a @ l # b \<and> is_header l ''GLOBAL''))))
       \<and> ([(''a'', ''A'')], [(''a'', [(''y'', ''y'')])]) = name_maps ex_twice"
    by blast
  then have 1: "read_string (parsed_content ex_twice) = Inl (DuplicateSectionError ''A'')"
    and 2: "name_maps ex_twice = ([(''a'', ''A'')], [(''a'', [(''y'', ''y'')])])"
    by auto
  note u = parse_ini_errors [of ex_keys_global]
  from u ex_keys_global_parse
  have "(\<exists>h. Some (DuplicateSectionError ''GLOBAL'') = Some (DuplicateSectionError h)
            \<and> read_string (parsed_content ex_keys_global) = Inl (DuplicateSectionError h)
            \<and> ((\<exists>a l1 b l2 c. readlines ex_keys_global = a @ l1 # b @ l2 # c \<and> is_header l1 h \<and> is_header l2 h)
               \<or> (needs_global ex_keys_global \<and> h = ''GLOBAL''
                   \<and> (\<exists>a l b. readlines ex_keys_global = a @ l # b \<and> is_header l ''GLOBAL''))))
       \<and> ([(''global'', ''GLOBAL'')], [(''global'', [(''a'', ''a''), (''b'', ''b'')])]) = name_maps ex_keys_global"
    by blast
  then have 3: "read_string (parsed_content ex_keys_global) = Inl (DuplicateSectionError ''GLOBAL'')"
    by auto
  have 4: "readlines ex_twice = [] @ (''[A]'' @ [CHR 0x0A]) # [''x=1'' @ [CHR 0x0A]]
        @ (''[A]'' @ [CHR 0x0A]) # [''y=2'' @ [CHR 0x0A]]"
    by (simp add: ex_twice_lines)
  have 5: "readlines ex_keys_global = [''a=1'' @ [CHR 0x0A]] @ (''[GLOBAL]'' @ [CHR 0x0A]) # [''b=2'' @ [CHR 0x0A]]"
    by (simp add: ex_keys_global_lines)
  show ?thesis
    by (intro conjI) (fact ex_twice_parse 1 2 ex_twice_plain 4 ex_twice_header ex_keys_global_parse 3
        ex_keys_global_headers(5) 5 ex_keys_global_headers(2))+
qed

lemma ex_junk_lines: "readlines ex_junk = [''[S]'' @ [CHR 0x0A], ''junk'' @ [CHR 0x0A]]"
  by code_simp

lemma ex_junk_parse: "parse_ini ex_junk = Inl ParsingError"
  by code_simp

lemma ex_junk_headers:
  "is_header (''[S]'' @ [CHR 0x0A]) ''S''" "re_match SECTCRE (strip (''junk'' @ [CHR 0x0A])) = None"
  by code_simp+

text \<open>
  Claim C2 as stated fails: this text has one section header and a line that is
  neither a header nor a key; the parser raises \<open>ParsingError\<close>, which \<open>parse_ini\<close>
  does not catch.
\<close>

theorem parse_ini_raises_on_malformed_line:
  "readlines ex_junk = [''[S]'' @ [CHR 0x0A], ''junk'' @ [CHR 0x0A]]
   \<and> is_header (''[S]'' @ [CHR 0x0A]) ''S''
   \<and> re_match SECTCRE (strip (''junk'' @ [CHR 0x0A])) = None
   \<and> parse_ini ex_junk = Inl ParsingError"
  using ex_junk_lines ex_junk_parse ex_junk_headers by simp

subsection \<open>The \<open>GLOBAL\<close> section\<close>

lemma ex_mid_parse:
  "parse_ini ex_mid_global =
     Inr (Some ex_mid_store, [(''a'', ''A''), (''global'', ''GLOBAL'')],
          [(''a'', [(''x'', ''x'')]), (''global'', [(''y'', ''y'')])], None)"
  by code_simp

lemma ex_mid_has: "has_section ex_mid_store ''GLOBAL''"
  by code_simp

lemma ex_mid_blocks:
  "item_lines ex_mid_store [(''a'', [(''x'', ''x'')]), (''global'', [(''y'', ''y'')])] ''global'' ''GLOBAL''
     @ join_blocks True (map (section_block ex_mid_store [(''a'', ''A''), (''global'', ''GLOBAL'')]
          [(''a'', [(''x'', ''x'')]), (''global'', [(''y'', ''y'')])]) (other_sections ex_mid_store))
   = ''y=2'' @ [CHR 0x0A, CHR 0x0A] @ ''[A]'' @ [CHR 0x0A] @ ''x=1'' @ [CHR 0x0A]"
  by code_simp

lemma ex_top_global:
  "needs_global (''y=2'' @ [CHR 0x0A])"
  "read_string (global_header @ ''y=2'' @ [CHR 0x0A])
     = Inr \<lparr>defaults = [], sections = [(''GLOBAL'', [(''y'', ''2'')])]\<rparr>"
  by code_simp+

lemma read_header_keeps:
  "read_header st h = Inr st' \<Longrightarrow> x \<in> set (elements_added st) \<Longrightarrow> x \<in> set (elements_added st')"
  by (auto simp: read_header_def split: if_splits)

lemma read_option_keeps:
  "read_option st s k v = Inr st' \<Longrightarrow> x \<in> set (elements_added st) \<Longrightarrow> x \<in> set (elements_added st')"
  by (auto simp: read_option_def Let_def split: if_splits)

lemma read_entry_keeps:
  assumes "read_entry st val = Inr st'" "x \<in> set (elements_added st)"
  shows "x \<in> set (elements_added st')"
  using assms(1)
proof (cases rule: read_entry_cases)
  case (1 h)
  from read_header_keeps [OF this assms(2)] show ?thesis .
next
  case (2 s k v)
  from read_option_keeps [OF this assms(2)] show ?thesis .
next
  case 3
  with assms(2) show ?thesis by simp
qed

lemma read_line_keeps:
  assumes "read_line st l = Inr st'" "x \<in> set (elements_added st)"
  shows "x \<in> set (elements_added st')"
  using assms(1)
proof (cases rule: read_line_cases)
  case 1
  with assms(2) show ?thesis by simp
next
  case (2 v)
  with assms(2) show ?thesis by simp
next
  case (3 val)
  show ?thesis by (rule read_entry_keeps [OF 3]) (simp add: assms(2))
qed

text \<open>A header line at the margin is never a continuation: it is read as a header.\<close>

lemma read_line_header:
  assumes "takeWhile isspace l = []" "is_header l h"
  shows "read_line st l = read_header (st\<lparr>indent_level := 0\<rparr>) h"
proof -
  from assms(2) have n: "\<not> (is_comment l \<or> strip l = [])" and m: "re_match SECTCRE (strip l) = Some [h]"
    by (simp_all add: is_header_def)
  from assms(1) have c: "\<not> continuation st l" by (simp add: continuation_def)
  from n c have "read_line st l = read_entry (st\<lparr>indent_level := length (takeWhile isspace l)\<rparr>) (strip l)"
    unfolding read_line_unfold by simp
  with assms(1) m show ?thesis by (simp add: read_entry_def)
qed

lemma read_header_present:
  assumes "read_header st h = Inr st'" "h \<noteq> default_section"
  shows "map_of (r_sections st') h \<noteq> None"
proof (cases "map_of (r_sections st) h")
  case None
  with assms have "r_sections st' = r_sections st @ [(h, [])]"
    by (auto simp: read_header_def split: if_splits)
  with None show ?thesis by (simp add: map_add_def)
next
  case (Some d)
  then have "map_of (r_sections st) h \<noteq> None" by simp
  from read_header_mono [OF assms(1) this] show ?thesis .
qed

lemma read_header_again:
  "map_of (r_sections st) h \<noteq> None \<Longrightarrow> Inl h \<in> set (elements_added st)
     \<Longrightarrow> read_header st h = Inl (DuplicateSectionError h)"
  by (simp add: read_header_def)

lemma read_lines_present:
  assumes "read_lines st ls = Inr st'" "l \<in> set ls" "takeWhile isspace l = []" "is_header l g"
    "g \<noteq> default_section"
  shows "map_of (r_sections st') g \<noteq> None"
  using assms(1,2)
proof (induction ls arbitrary: st)
  case Nil
  then show ?case by simp
next
  case (Cons x ls)
  from Cons.prems(1) obtain st1 where 1: "read_line st x = Inr st1" "read_lines st1 ls = Inr st'"
    by (auto split: sum.splits)
  show ?case
  proof (cases "x = l")
    case True
    with 1(1) have "read_header (st\<lparr>indent_level := 0\<rparr>) g = Inr st1"
      by (simp add: read_line_header [OF assms(3,4)])
    from read_header_present [OF this assms(5)] have "map_of (r_sections st1) g \<noteq> None" .
    from read_lines_mono [OF 1(2) this] show ?thesis .
  next
    case False
    with Cons.prems(2) have "l \<in> set ls" by simp
    from Cons.IH [OF 1(2) this] show ?thesis .
  qed
qed

lemma read_lines_rejected:
  assumes "l \<in> set ls" "takeWhile isspace l = []" "is_header l g"
    "map_of (r_sections st) g \<noteq> None" "Inl g \<in> set (elements_added st)"
  shows "\<exists>err. read_lines st ls = Inl err"
  using assms(1,4,5)
proof (induction ls arbitrary: st)
  case Nil
  then show ?case by simp
next
  case (Cons x ls)
  show ?case
  proof (cases "read_line st x")
    case (Inl err)
    then show ?thesis by simp
  next
    case (Inr st1)
    have "x \<noteq> l"
    proof
      assume "x = l"
      with Inr have "read_header (st\<lparr>indent_level := 0\<rparr>) g = Inr st1"
        by (simp add: read_line_header [OF assms(2,3)])
      moreover have "read_header (st\<lparr>indent_level := 0\<rparr>) g = Inl (DuplicateSectionError g)"
        by (rule read_header_again) (simp_all add: Cons.prems)
      ultimately show False by simp
    qed
    with Cons.prems(1) have "l \<in> set ls" by simp
    from Cons.IH [OF this read_line_mono [OF Inr Cons.prems(2)] read_line_keeps [OF Inr Cons.prems(3)]]
    show ?thesis by (simp add: Inr)
  qed
qed

lemma GLOBAL_not_default: "''GLOBAL'' \<noteq> default_section"
  by (simp add: default_section_def)

lemma declared_global_present:
  assumes "declares_global t" "read_string (parsed_content t) = Inr c"
  shows "has_section c ''GLOBAL''"
proof -
  from assms(1) obtain l where l: "l \<in> set (readlines t)" "takeWhile isspace l = []"
      "is_header l ''GLOBAL''"
    by (auto simp: declares_global_def)
  from l(1) have m: "l \<in> set (readlines (parsed_content t))"
    by (simp add: parsed_content_def global_header_lines)
  from assms(2) obtain st where st: "read_lines new_reader (readlines (parsed_content t)) = Inr st"
    by (auto simp: read_string_def split: sum.splits)
  from read_lines_present [OF st m l(2,3) GLOBAL_not_default]
  show ?thesis by (simp add: has_section_read [OF assms(2) st])
qed

lemma declared_global_rejected:
  assumes "declares_global t" "needs_global t"
  shows "\<exists>err. read_string (parsed_content t) = Inl err"
proof -
  from assms(1) obtain l where l: "l \<in> set (readlines t)" "takeWhile isspace l = []"
      "is_header l ''GLOBAL''"
    by (auto simp: declares_global_def)
  let ?st = "new_reader\<lparr>r_sections := [(''GLOBAL'', [])],
     sectname := Some ''GLOBAL'', elements_added := [Inl ''GLOBAL'']\<rparr>"
  from read_lines_rejected [OF l, of ?st] obtain err where "read_lines ?st (readlines t) = Inl err"
    by auto
  then have "read_lines new_reader (readlines (parsed_content t)) = Inl err"
    using assms(2) by (simp add: parsed_content_def global_header_lines read_global_header)
  then show ?thesis by (simp add: read_string_def)
qed

lemma parse_ini_store:
  "parse_ini t = Inr (Some c, snm, knm, err) \<Longrightarrow> read_string (parsed_content t) = Inr c"
  unfolding parse_ini_cases by (auto split: sum.splits py_error.splits)

text \<open>
  Claim C9, as amended. Take a text that declares the section \<open>GLOBAL\<close>. Whenever
  \<open>parse_ini\<close> returns a store for it, the text begins with a section header, the store
  has the section \<open>GLOBAL\<close>, and \<open>save_ini\<close> writes that section's \<open>key=value\<close> lines
  first and no header line for it; the other sections follow, each after an empty line.
  When the text does not begin with a section header, the header put in front makes the
  declared one a duplicate: the parser raises and no store is returned. A text that
  opens with the header \<open>[GLOBAL]\<close> is read exactly as the same text without that
  header is: there the explicit and the implicit section are one. Every store with a
  section \<open>GLOBAL\<close> is written in the form above.
\<close>

theorem explicit_global_section:
  "(declares_global t \<longrightarrow>
      (\<forall>c snm knm err. parse_ini t = Inr (Some c, snm, knm, err) \<longrightarrow>
         \<not> needs_global t \<and> has_section c ''GLOBAL''
         \<and> save_ini c snm knm = item_lines c knm ''global'' ''GLOBAL''
             @ join_blocks True (map (section_block c snm knm) (other_sections c))))
   \<and> (declares_global t \<and> needs_global t \<longrightarrow>
        (\<exists>err. read_string (parsed_content t) = Inl err)
        \<and> (\<forall>c snm knm err. parse_ini t \<noteq> Inr (Some c, snm, knm, err)))
   \<and> (\<forall>c. read_string (global_header @ t) = Inr c \<longrightarrow> has_section c ''GLOBAL'')
   \<and> (needs_global t \<longrightarrow> \<not> needs_global (global_header @ t)
         \<and> parsed_content (global_header @ t) = parsed_content t)
   \<and> (has_section c ''GLOBAL'' \<longrightarrow>
         save_ini c snm knm = item_lines c knm ''global'' ''GLOBAL''
           @ join_blocks True (map (section_block c snm knm) (other_sections c)))"
proof -
  have b: "declares_global t \<and> needs_global t \<longrightarrow>
        (\<exists>err. read_string (parsed_content t) = Inl err)
        \<and> (\<forall>c snm knm err. parse_ini t \<noteq> Inr (Some c, snm, knm, err))"
  proof (intro impI conjI allI)
    assume h: "declares_global t \<and> needs_global t"
    then obtain err where err: "read_string (parsed_content t) = Inl err"
      using declared_global_rejected by blast
    then show "\<exists>err. read_string (parsed_content t) = Inl err" ..
    fix c snm knm e
    show "parse_ini t \<noteq> Inr (Some c, snm, knm, e)"
    proof
      assume "parse_ini t = Inr (Some c, snm, knm, e)"
      from parse_ini_store [OF this] err show False by simp
    qed
  qed
  have a: "declares_global t \<longrightarrow>
      (\<forall>c snm knm err. parse_ini t = Inr (Some c, snm, knm, err) \<longrightarrow>
         \<not> needs_global t \<and> has_section c ''GLOBAL''
         \<and> save_ini c snm knm = item_lines c knm ''global'' ''GLOBAL''
             @ join_blocks True (map (section_block c snm knm) (other_sections c)))"
  proof (intro impI allI)
    fix c snm knm err
    assume d: "declares_global t" and p: "parse_ini t = Inr (Some c, snm, knm, err)"
    from b d p have n: "\<not> needs_global t" by blast
    from declared_global_present [OF d parse_ini_store [OF p]] have g: "has_section c ''GLOBAL''" .
    from n g save_ini_global [OF g]
    show "\<not> needs_global t \<and> has_section c ''GLOBAL''
         \<and> save_ini c snm knm = item_lines c knm ''global'' ''GLOBAL''
             @ join_blocks True (map (section_block c snm knm) (other_sections c))"
      by simp
  qed
  have c: "\<forall>c. read_string (global_header @ t) = Inr c \<longrightarrow> has_section c ''GLOBAL''"
    using read_string_global by blast
  have d: "needs_global t \<longrightarrow> \<not> needs_global (global_header @ t)
         \<and> parsed_content (global_header @ t) = parsed_content t"
    using parsed_content_global global_header_not_needed by blast
  have e: "has_section c ''GLOBAL'' \<longrightarrow>
         save_ini c snm knm = item_lines c knm ''global'' ''GLOBAL''
           @ join_blocks True (map (section_block c snm knm) (other_sections c))"
    using save_ini_global by blast
  show ?thesis by (intro conjI) (fact a b c d e)+
qed

lemma ex_declare:
  "declares_global ex_mid_global" "declares_global ex_keys_global"
  by code_simp+

theorem explicit_global_section_witness:
  "declares_global ex_mid_global
   \<and> parse_ini ex_mid_global =
       Inr (Some ex_mid_store, [(''a'', ''A''), (''global'', ''GLOBAL'')],
            [(''a'', [(''x'', ''x'')]), (''global'', [(''y'', ''y'')])], None)
   \<and> \<not> needs_global ex_mid_global
   \<and> has_section ex_mid_store ''GLOBAL''
   \<and> save_ini ex_mid_store [(''a'', ''A''), (''global'', ''GLOBAL'')]
        [(''a'', [(''x'', ''x'')]), (''global'', [(''y'', ''y'')])]
       = ''y=2'' @ [CHR 0x0A, CHR 0x0A] @ ''[A]'' @ [CHR 0x0A] @ ''x=1'' @ [CHR 0x0A]
   \<and> declares_global ex_keys_global \<and> needs_global ex_keys_global
   \<and> (\<exists>err. read_string (parsed_content ex_keys_global) = Inl err)
   \<and> read_string (global_header @ ''y=2'' @ [CHR 0x0A])
       = Inr \<lparr>defaults = [], sections = [(''GLOBAL'', [(''y'', ''2'')])]\<rparr>
   \<and> has_section \<lparr>defaults = [], sections = [(''GLOBAL'', [(''y'', ''2'')])]\<rparr> ''GLOBAL''
   \<and> needs_global (''y=2'' @ [CHR 0x0A])
   \<and> \<not> needs_global (global_header @ ''y=2'' @ [CHR 0x0A])
   \<and> parsed_content (global_header @ ''y=2'' @ [CHR 0x0A]) = parsed_content (''y=2'' @ [CHR 0x0A])"
proof -
  let ?snm = "[(''a'', ''A''), (''global'', ''GLOBAL'')]"
  let ?knm = "[(''a'', [(''x'', ''x'')]), (''global'', [(''y'', ''y'')])]"
  note t0 = explicit_global_section [of ex_mid_global ex_mid_store ?snm ?knm]
  from t0 ex_declare(1) ex_mid_parse
  have m: "\<not> needs_global ex_mid_global \<and> has_section ex_mid_store ''GLOBAL''
     \<and> save_ini ex_mid_store ?snm ?knm = item_lines ex_mid_store ?knm ''global'' ''GLOBAL''
         @ join_blocks True (map (section_block ex_mid_store ?snm ?knm) (other_sections ex_mid_store))"
    by blast
  then have m1: "\<not> needs_global ex_mid_global" and m2: "has_section ex_mid_store ''GLOBAL''"
    by blast+
  from m have "save_ini ex_mid_store ?snm ?knm = item_lines ex_mid_store ?knm ''global'' ''GLOBAL''
         @ join_blocks True (map (section_block ex_mid_store ?snm ?knm) (other_sections ex_mid_store))"
    by blast
  then have m3: "save_ini ex_mid_store ?snm ?knm
       = ''y=2'' @ [CHR 0x0A, CHR 0x0A] @ ''[A]'' @ [CHR 0x0A] @ ''x=1'' @ [CHR 0x0A]"
    by (simp only: ex_mid_blocks)
  note t1 = explicit_global_section [of ex_keys_global ex_mid_store ?snm ?knm]
  from t1 ex_declare(2) ex_keys_global_headers(5)
  have k: "\<exists>err. read_string (parsed_content ex_keys_global) = Inl err" by blast
  note t2 = explicit_global_section [of "''y=2'' @ [CHR 0x0A]" ex_mid_store ?snm ?knm]
  have a: "has_section \<lparr>defaults = [], sections = [(''GLOBAL'', [(''y'', ''2'')])]\<rparr> ''GLOBAL''"
    using t2 ex_top_global(2) by blast
  have b: "\<not> needs_global (global_header @ ''y=2'' @ [CHR 0x0A])"
    and c: "parsed_content (global_header @ ''y=2'' @ [CHR 0x0A]) = parsed_content (''y=2'' @ [CHR 0x0A])"
    using t2 ex_top_global(1) by blast+
  show ?thesis
    by (intro conjI) (fact ex_declare ex_mid_parse m1 m2 m3 ex_keys_global_headers(5) k
        ex_top_global a b c)+
qed

text \<open>
  Keys at the top and the header \<open>[GLOBAL]\<close> below them: the header put in front makes
  the explicit one a duplicate, and no store is returned.
\<close>

theorem explicit_global_below_keys_rejected:
  "readlines ex_keys_global = [''a=1'' @ [CHR 0x0A], ''[GLOBAL]'' @ [CHR 0x0A], ''b=2'' @ [CHR 0x0A]]
   \<and> takeWhile isspace (''[GLOBAL]'' @ [CHR 0x0A]) = []
   \<and> is_header (''[GLOBAL]'' @ [CHR 0x0A]) ''GLOBAL''
   \<and> parse_ini ex_keys_global = Inr (None, [(''global'', ''GLOBAL'')],
        [(''global'', [(''a'', ''a''), (''b'', ''b'')])], Some (DuplicateSectionError ''GLOBAL''))"
  by (intro conjI) (fact ex_keys_global_lines ex_keys_global_headers(4) ex_keys_global_headers(2)
      ex_keys_global_parse)+

lemma name_maps_global:
  assumes "needs_global t"
  shows "map_of (fst (name_maps t)) ''global'' = Some ''GLOBAL''"
    "map_of (snd (name_maps t)) ''global'' = Some (global_keys t)"
  using assms by (simp_all add: name_maps_def Let_def AList.update_conv')

lemma name_maps_plain:
  "\<not> needs_global t \<Longrightarrow> name_maps t = (section_name_map (scan_lines t), key_name_map (scan_lines t))"
  by (simp add: name_maps_def Let_def)

lemma needs_global_section:
  assumes "needs_global t" "read_string (parsed_content t) = Inr c"
  shows "has_section c ''GLOBAL''"
  using assms read_string_global [of t c] by (simp add: parsed_content_def)

text \<open>
  Claim C7, as amended. \<open>parse_ini\<close> puts \<open>[GLOBAL]\<close> in front exactly when the text
  does not begin (after optional whitespace) with a bracketed header on one line; it
  then records \<open>global\<close> in both casing maps, the key map being seeded by the scan for
  \<open>key=\<close> lines, and a store that is read has the section \<open>GLOBAL\<close>. Otherwise the
  text and the maps of the first pass are used as they are. The text written is the one
  the specification describes: \<open>GLOBAL\<close> first and headerless, then the other sections
  in store order.
\<close>

theorem global_synthesis:
  "(needs_global t \<longleftrightarrow> \<not> begins_with_header t)
   \<and> (needs_global t \<longrightarrow> parsed_content t = global_header @ t
         \<and> map_of (fst (name_maps t)) ''global'' = Some ''GLOBAL''
         \<and> map_of (snd (name_maps t)) ''global'' = Some (global_keys t)
         \<and> (\<forall>c. read_string (parsed_content t) = Inr c \<longrightarrow> has_section c ''GLOBAL''))
   \<and> (\<not> needs_global t \<longrightarrow> parsed_content t = t
         \<and> name_maps t = (section_name_map (scan_lines t), key_name_map (scan_lines t)))
   \<and> save_ini c snm knm = save_spec c snm knm"
proof -
  have a: "needs_global t \<longrightarrow> parsed_content t = global_header @ t
         \<and> map_of (fst (name_maps t)) ''global'' = Some ''GLOBAL''
         \<and> map_of (snd (name_maps t)) ''global'' = Some (global_keys t)
         \<and> (\<forall>c. read_string (parsed_content t) = Inr c \<longrightarrow> has_section c ''GLOBAL'')"
    using name_maps_global needs_global_section by (simp add: parsed_content_def)
  have b: "\<not> needs_global t \<longrightarrow> parsed_content t = t
         \<and> name_maps t = (section_name_map (scan_lines t), key_name_map (scan_lines t))"
    using name_maps_plain by (simp add: parsed_content_def)
  show ?thesis using a b needs_global_iff save_ini_spec by blast
qed

lemma ex_keys_first_eval:
  "splitlines ex_keys_first = [''a=1'', ''[S]'', ''b=2'']"
  "re_match header_pattern ''[S]'' = Some [''S'']"
  "needs_global ex_keys_first"
  "parse_ini ex_keys_first =
     Inr (Some ex_keys_store, [(''s'', ''S''), (''global'', ''GLOBAL'')],
          [(''s'', [(''b'', ''b'')]), (''global'', [(''a'', ''a''), (''b'', ''b'')])], None)"
  by code_simp+

lemma ex_headed_eval:
  "\<not> needs_global ex_headed"
  by code_simp

lemma ex_keys_save:
  "save_spec ex_keys_store [(''s'', ''S''), (''global'', ''GLOBAL'')]
     [(''s'', [(''b'', ''b'')]), (''global'', [(''a'', ''a''), (''b'', ''b'')])]
   = ''a=1'' @ [CHR 0x0A, CHR 0x0A] @ ''[S]'' @ [CHR 0x0A] @ ''b=2'' @ [CHR 0x0A]"
  by code_simp

theorem global_synthesis_witness:
  "needs_global ex_keys_first \<and> \<not> begins_with_header ex_keys_first
   \<and> parsed_content ex_keys_first = global_header @ ex_keys_first
   \<and> map_of (fst (name_maps ex_keys_first)) ''global'' = Some ''GLOBAL''
   \<and> map_of (snd (name_maps ex_keys_first)) ''global'' = Some (global_keys ex_keys_first)
   \<and> \<not> needs_global ex_headed \<and> begins_with_header ex_headed
   \<and> parsed_content ex_headed = ex_headed
   \<and> save_ini ex_keys_store [(''s'', ''S''), (''global'', ''GLOBAL'')]
        [(''s'', [(''b'', ''b'')]), (''global'', [(''a'', ''a''), (''b'', ''b'')])]
      = ''a=1'' @ [CHR 0x0A, CHR 0x0A] @ ''[S]'' @ [CHR 0x0A] @ ''b=2'' @ [CHR 0x0A]"
proof -
  note t1 = global_synthesis [of ex_keys_first ex_keys_store
      "[(''s'', ''S''), (''global'', ''GLOBAL'')]"
      "[(''s'', [(''b'', ''b'')]), (''global'', [(''a'', ''a''), (''b'', ''b'')])]"]
  note t2 = global_synthesis [of ex_headed ex_keys_store "[]" "[]"]
  have a: "\<not> begins_with_header ex_keys_first"
    and b: "parsed_content ex_keys_first = global_header @ ex_keys_first"
    and c: "map_of (fst (name_maps ex_keys_first)) ''global'' = Some ''GLOBAL''"
    and d: "map_of (snd (name_maps ex_keys_first)) ''global'' = Some (global_keys ex_keys_first)"
    using t1 ex_keys_first_eval(3) by blast+
  have e: "begins_with_header ex_headed" and f: "parsed_content ex_headed = ex_headed"
    using t2 ex_headed_eval by blast+
  have g: "save_ini ex_keys_store [(''s'', ''S''), (''global'', ''GLOBAL'')]
        [(''s'', [(''b'', ''b'')]), (''global'', [(''a'', ''a''), (''b'', ''b'')])]
      = ''a=1'' @ [CHR 0x0A, CHR 0x0A] @ ''[S]'' @ [CHR 0x0A] @ ''b=2'' @ [CHR 0x0A]"
    using t1 ex_keys_save by presburger
  show ?thesis using a b c d e f g ex_keys_first_eval(3) ex_headed_eval by blast
qed

text \<open>
  Claim C7 as stated fails: this text contains the section header \<open>[S]\<close>, and the
  synthetic header is put in front all the same, because the text begins with a key.
\<close>

theorem global_synthesized_despite_header:
  "splitlines ex_keys_first = [''a=1'', ''[S]'', ''b=2'']
   \<and> re_match header_pattern ''[S]'' = Some [''S'']
   \<and> needs_global ex_keys_first
   \<and> parse_ini ex_keys_first =
       Inr (Some ex_keys_store, [(''s'', ''S''), (''global'', ''GLOBAL'')],
            [(''s'', [(''b'', ''b'')]), (''global'', [(''a'', ''a''), (''b'', ''b'')])], None)"
  using ex_keys_first_eval by simp

end
